theory Spec2Isabelle
  imports Main "HOL-Library.Word"
begin

section \<open>Garden Lights Transmitter: a shallow embedding of the sketch\<close>

text \<open>
  The sketch runs on an Arduino Pro Mini (ATmega328), where \<open>int\<close> is a 16-bit
  two's-complement integer. Values of type \<open>int\<close> are 16-bit words read through
  \<open>sint\<close>; bytes of the command buffer are characters, the terminator written by
  \<open>snprintf\<close> being the character with code 0.
\<close>

type_synonym int16 = "16 word"

datatype level = LOW | HIGH

datatype pin_mode = INPUT | INPUT_PULLUP | OUTPUT

subsection \<open>Constants of the sketch\<close>

definition TRANSMITTER_ADDRESS :: nat where "TRANSMITTER_ADDRESS = 1"
definition RECEIVER_ADDRESS :: nat where "RECEIVER_ADDRESS = 2"

text \<open>\<open>A0\<close> and \<open>A1\<close> are the board's names of its analog pins (14 and 15 on the Pro Mini).\<close>

definition CHANNEL_ONE_POT_PIN :: nat where "CHANNEL_ONE_POT_PIN = 14"
definition CHANNEL_TWO_POT_PIN :: nat where "CHANNEL_TWO_POT_PIN = 15"
definition CHANNEL_ONE_BUTTON_PIN :: nat where "CHANNEL_ONE_BUTTON_PIN = 4"
definition CHANNEL_TWO_BUTTON_PIN :: nat where "CHANNEL_TWO_BUTTON_PIN = 5"
definition GREEN_LED_PIN :: nat where "GREEN_LED_PIN = 6"
definition ORANGE_LED_PIN :: nat where "ORANGE_LED_PIN = 7"

definition MODE_TEXT :: string where "MODE_TEXT = ''MODE ''"
definition POTS_TEXT :: string where "POTS_TEXT = ''POTS ''"
definition CHANNEL_OFFSET :: nat where "CHANNEL_OFFSET = 5"
definition VALUE_OFFSET :: nat where "VALUE_OFFSET = 10"
definition COMMAND_BUF_LEN :: nat where "COMMAND_BUF_LEN = 16"
definition POTS_EPS :: int16 where "POTS_EPS = 4"

subsection \<open>Formatted output into the command buffer\<close>

definition NUL :: char where "NUL = CHR 0x00"

definition digit :: "nat \<Rightarrow> char" where
  "digit d = ''0123456789'' ! d"

fun dec_nat :: "nat \<Rightarrow> string" where
  "dec_nat n = (if n < 10 then [digit n] else dec_nat (n div 10) @ [digit (n mod 10)])"

declare dec_nat.simps [simp del]

definition dec_int :: "int \<Rightarrow> string" where
  "dec_int i = (if i < 0 then CHR ''-'' # dec_nat (nat (- i)) else dec_nat (nat i))"

text \<open>The conversions \<open>%5s\<close> and \<open>%5d\<close>: the text right-justified in a field of at
  least \<open>w\<close> characters, padded with spaces on the left, never shortened.\<close>

definition rjust :: "nat \<Rightarrow> string \<Rightarrow> string" where
  "rjust w t = replicate (w - length t) CHR '' '' @ t"

definition fmt_s :: "nat \<Rightarrow> string \<Rightarrow> string" where
  "fmt_s w t = rjust w t"

definition fmt_d :: "nat \<Rightarrow> int16 \<Rightarrow> string" where
  "fmt_d w v = rjust w (dec_int (sint v))"

text \<open>\<open>snprintf (p, n, ...)\<close> stores at most \<open>n - 1\<close> characters of the formatted
  text and then the terminator. \<open>poke\<close> is the store of these bytes into the buffer at
  an offset; every call of the sketch stays inside the 16 bytes of the buffer.\<close>

definition snprintf :: "nat \<Rightarrow> string \<Rightarrow> string" where
  "snprintf n t = take (n - 1) t @ [NUL]"

definition poke :: "string \<Rightarrow> nat \<Rightarrow> string \<Rightarrow> string" where
  "poke b off t = take off b @ t @ drop (off + length t) b"

text \<open>A C string read from a buffer ends before its first terminator.\<close>

definition c_str :: "string \<Rightarrow> string" where
  "c_str b = takeWhile (\<lambda>c. c \<noteq> NUL) b"

subsection \<open>The world outside the sketch\<close>

text \<open>
  Every call into the hardware or the radio library is recorded, in order, in the
  \<open>trace\<close> of the device; what the call returns is an input supplied by the
  environment and recorded with it. \<open>SendtoWait f n a r\<close> is one complete call of the
  blocking primitive \<open>manager.sendtoWait\<close> with the \<open>n\<close> bytes \<open>f\<close> for address
  \<open>a\<close>, which returned \<open>r\<close> (acknowledged or not).
\<close>

datatype effect =
    Serial_begin nat
  | Serial_print string
  | Serial_println string
  | Manager_init bool
  | SetRF bool
  | PinMode nat pin_mode
  | DigitalRead nat level
  | AnalogRead nat int16
  | DigitalWrite nat level
  | Delay nat
  | SendtoWait string nat nat bool

subsection \<open>The debouncer\<close>

text \<open>
  Modelled from the spec: the class \<open>Bounce\<close> of the Bounce2 library (its constructor,
  \<open>attach\<close>, \<open>interval\<close>, \<open>update\<close> and \<open>fell\<close>) is included by the sketch but is
  not among its sources. The record is the spec's ButtonState (last stable level, last raw
  level, time of the last raw-level change), with the interval and the flag that \<open>fell\<close>
  reads. \<open>update\<close> is the spec's \<open>poll_button\<close>: a raw level that differs from the
  last raw level restarts the observation; a raw level observed for at least the interval
  and different from the stable level is accepted. A pressed button reads \<open>LOW\<close>
  (the pin has a pull-up), and a button is released at startup.
\<close>

record Bounce =
  pin :: nat
  interval_millis :: nat
  debounced :: level
  unstable :: level
  previous_millis :: nat
  changed :: bool

text \<open>Modelled from the spec: the constructor \<open>Bounce()\<close> of the library; a button is
  released at startup, and the library's default interval is 10.\<close>

definition Bounce_new :: Bounce where
  "Bounce_new = \<lparr>pin = 0, interval_millis = 10, debounced = HIGH, unstable = HIGH,
     previous_millis = 0, changed = False\<rparr>"

text \<open>Modelled from the spec: \<open>Bounce::attach\<close> and \<open>Bounce::interval\<close> of the library,
  which set the pin and the stabilization interval.\<close>

definition attach :: "nat \<Rightarrow> Bounce \<Rightarrow> Bounce" where
  "attach p b = b\<lparr>pin := p\<rparr>"

definition interval :: "nat \<Rightarrow> Bounce \<Rightarrow> Bounce" where
  "interval n b = b\<lparr>interval_millis := n\<rparr>"

text \<open>Modelled from the spec: \<open>Bounce::update\<close> of the library, the spec's
  \<open>poll_button\<close> for the raw level \<open>raw\<close> read at time \<open>now\<close>.\<close>

definition update :: "level \<Rightarrow> nat \<Rightarrow> Bounce \<Rightarrow> Bounce" where
  "update raw now b =
     (if raw \<noteq> unstable b
      then b\<lparr>unstable := raw, previous_millis := now, changed := False\<rparr>
      else if interval_millis b \<le> now - previous_millis b \<and> raw \<noteq> debounced b
      then b\<lparr>debounced := raw, changed := True\<rparr>
      else b\<lparr>changed := False\<rparr>)"

text \<open>Modelled from the spec: \<open>Bounce::fell\<close> of the library, true when the last
  \<open>update\<close> accepted a change of the stable level from released to pressed.\<close>

definition fell :: "Bounce \<Rightarrow> bool" where
  "fell b = (changed b \<and> debounced b = LOW)"

subsection \<open>The globals of the sketch\<close>

record device =
  channel_one_pot_value :: int16
  channel_two_pot_value :: int16
  channel_one_button_debouncer :: Bounce
  channel_two_button_debouncer :: Bounce
  command_buf :: string
  trace :: "effect list"

text \<open>Globals without an initialiser are zero at power-on.\<close>

definition power_on :: device where
  "power_on = \<lparr>channel_one_pot_value = 0, channel_two_pot_value = 0,
     channel_one_button_debouncer = Bounce_new, channel_two_button_debouncer = Bounce_new,
     command_buf = replicate COMMAND_BUF_LEN NUL, trace = []\<rparr>"

definition emits :: "effect list \<Rightarrow> device \<Rightarrow> device" where
  "emits es s = s\<lparr>trace := trace s @ es\<rparr>"

definition emit :: "effect \<Rightarrow> device \<Rightarrow> device" where
  "emit e s = emits [e] s"

subsection \<open>sendCommand, sendButton, sendPots\<close>

text \<open>
  \<open>sendCommand\<close> changes nothing but the world: \<open>delivery\<close> is what its body does,
  in order, where \<open>ack\<close> is what \<open>manager.sendtoWait\<close> returns for this call. The
  transport gets the first \<open>COMMAND_BUF_LEN\<close> bytes at \<open>command\<close>; the serial port
  prints \<open>command\<close> up to its terminator.
\<close>

definition delivery :: "string \<Rightarrow> bool \<Rightarrow> bool \<Rightarrow> effect list" where
  "delivery command flash_led ack =
     [Serial_print ''Sending command: '',
      Serial_println (c_str command),
      SendtoWait (take COMMAND_BUF_LEN command) COMMAND_BUF_LEN RECEIVER_ADDRESS ack]
     @ (if ack
        then (if flash_led
              then [DigitalWrite GREEN_LED_PIN HIGH, DigitalWrite ORANGE_LED_PIN LOW, Delay 200]
              else [])
             @ [Serial_print ''Sent send OK: '', Serial_println (c_str command)]
        else (if flash_led
              then [DigitalWrite GREEN_LED_PIN LOW, DigitalWrite ORANGE_LED_PIN HIGH, Delay 200]
              else [])
             @ [Serial_println ''sendtoWait failed''])
     @ (if flash_led
        then [DigitalWrite GREEN_LED_PIN LOW, DigitalWrite ORANGE_LED_PIN LOW]
        else [])"

definition sendCommand :: "string \<Rightarrow> bool \<Rightarrow> bool \<Rightarrow> device \<Rightarrow> device" where
  "sendCommand command flash_led ack s = emits (delivery command flash_led ack) s"

definition sendButton :: "int16 \<Rightarrow> bool \<Rightarrow> device \<Rightarrow> device" where
  "sendButton channel ack s =
     (let b = poke (command_buf s) 0 (snprintf 6 (fmt_s 5 MODE_TEXT));
          b = poke b CHANNEL_OFFSET (snprintf 6 (fmt_d 5 channel))
      in sendCommand b True ack (s\<lparr>command_buf := b\<rparr>))"

definition sendPots :: "int16 \<Rightarrow> int16 \<Rightarrow> bool \<Rightarrow> device \<Rightarrow> device" where
  "sendPots channel val ack s =
     (let b = poke (command_buf s) 0 (snprintf 6 (fmt_s 5 POTS_TEXT));
          b = poke b CHANNEL_OFFSET (snprintf 6 (fmt_d 5 channel));
          b = poke b VALUE_OFFSET (snprintf 6 (fmt_d 5 val))
      in sendCommand b False ack (s\<lparr>command_buf := b\<rparr>))"

subsection \<open>loop\<close>

text \<open>The macro \<open>abs\<close> of the Arduino core, on a 16-bit \<open>int\<close>.\<close>

definition abs16 :: "int16 \<Rightarrow> int16" where
  "abs16 x = (if 0 <s x then x else - x)"

text \<open>What one iteration of \<open>loop\<close> gets from the outside: the level of each button pin
  and the clock when its debouncer is updated, the two analog readings, and the result of
  \<open>sendtoWait\<close> for each of the four places where a command may be sent.\<close>

record readings =
  button_one_level :: level
  button_one_millis :: nat
  button_two_level :: level
  button_two_millis :: nat
  button_one_ack :: bool
  button_two_ack :: bool
  pot_one_raw :: int16
  pot_one_ack :: bool
  pot_two_raw :: int16
  pot_two_ack :: bool

definition loop :: "readings \<Rightarrow> device \<Rightarrow> device" where
  "loop r s =
     (let s = emit (DigitalRead (pin (channel_one_button_debouncer s)) (button_one_level r)) s;
          s = s\<lparr>channel_one_button_debouncer :=
                 update (button_one_level r) (button_one_millis r) (channel_one_button_debouncer s)\<rparr>;
          s = emit (DigitalRead (pin (channel_two_button_debouncer s)) (button_two_level r)) s;
          s = s\<lparr>channel_two_button_debouncer :=
                 update (button_two_level r) (button_two_millis r) (channel_two_button_debouncer s)\<rparr>;
          s = (if fell (channel_one_button_debouncer s) then sendButton 1 (button_one_ack r) s else s);
          s = (if fell (channel_two_button_debouncer s) then sendButton 2 (button_two_ack r) s else s);
          val = pot_one_raw r;
          s = emit (AnalogRead CHANNEL_ONE_POT_PIN val) s;
          s = (if POTS_EPS <s abs16 (val - channel_one_pot_value s)
               then sendPots 1 val (pot_one_ack r) (s\<lparr>channel_one_pot_value := val\<rparr>)
               else s);
          val = pot_two_raw r;
          s = emit (AnalogRead CHANNEL_TWO_POT_PIN val) s;
          s = (if POTS_EPS <s abs16 (val - channel_two_pot_value s)
               then sendPots 2 val (pot_two_ack r) (s\<lparr>channel_two_pot_value := val\<rparr>)
               else s)
      in s)"

subsection \<open>setup\<close>

text \<open>
  \<open>spin n\<close> is \<open>n\<close> rounds of \<open>while (true) delay(1000)\<close>, a loop without an exit.
  \<open>setup_sketch n\<close> (the sketch's \<open>setup\<close>) is \<open>Inr\<close> the device when \<open>setup\<close> returns, and \<open>Inl\<close> the device
  as it is after \<open>n\<close> rounds inside one of the two inert loops, from which \<open>setup\<close>
  never returns.
\<close>

record boot =
  manager_init :: bool
  driver_setRF :: bool
  pot_one_start :: int16
  pot_two_start :: int16

fun spin :: "nat \<Rightarrow> device \<Rightarrow> device" where
  "spin 0 s = s"
| "spin (Suc n) s = spin n (emit (Delay 1000) s)"

definition setup_sketch :: "nat \<Rightarrow> boot \<Rightarrow> device \<Rightarrow> device + device" where
  "setup_sketch n b s =
     (let s = emits [Serial_begin 9600,
                     Serial_println ''Setting up Garden Lights Transmitter'',
                     Manager_init (manager_init b)] s
      in if \<not> manager_init b
         then Inl (spin n (emit (Serial_println ''init of NRF24L01 failed'') s))
         else
           let s = emit (SetRF (driver_setRF b)) s
           in if \<not> driver_setRF b
              then Inl (spin n (emit (Serial_println ''setRF failed'') s))
              else
                let s = emits [PinMode CHANNEL_ONE_BUTTON_PIN INPUT_PULLUP,
                               PinMode CHANNEL_TWO_BUTTON_PIN INPUT_PULLUP] s;
                    s = s\<lparr>channel_one_button_debouncer :=
                           interval 10 (attach CHANNEL_ONE_BUTTON_PIN (channel_one_button_debouncer s))\<rparr>;
                    s = s\<lparr>channel_two_button_debouncer :=
                           interval 10 (attach CHANNEL_TWO_BUTTON_PIN (channel_two_button_debouncer s))\<rparr>;
                    s = emits [PinMode CHANNEL_ONE_POT_PIN INPUT,
                               PinMode CHANNEL_TWO_POT_PIN INPUT] s;
                    s = emit (AnalogRead CHANNEL_ONE_POT_PIN (pot_one_start b)) s;
                    s = s\<lparr>channel_one_pot_value := pot_one_start b\<rparr>;
                    s = emit (AnalogRead CHANNEL_TWO_POT_PIN (pot_two_start b)) s;
                    s = s\<lparr>channel_two_pot_value := pot_two_start b\<rparr>;
                    s = emits [PinMode GREEN_LED_PIN OUTPUT, PinMode ORANGE_LED_PIN OUTPUT,
                               DigitalWrite GREEN_LED_PIN LOW, DigitalWrite ORANGE_LED_PIN HIGH,
                               Delay 1000,
                               DigitalWrite GREEN_LED_PIN HIGH, DigitalWrite ORANGE_LED_PIN LOW,
                               Delay 1000,
                               DigitalWrite GREEN_LED_PIN LOW, DigitalWrite ORANGE_LED_PIN LOW,
                               Delay 1000,
                               Serial_println ''Garden Lights Transmitter setup complete''] s
                in Inr s)"

text \<open>
  The Arduino runtime calls \<open>setup\<close> once and then \<open>loop\<close> again and again. \<open>run\<close>
  is the device after \<open>setup\<close> and one iteration of \<open>loop\<close> for each element of
  \<open>rs\<close>; while \<open>setup\<close> has not returned, no iteration takes place.
\<close>

definition loops :: "readings list \<Rightarrow> device \<Rightarrow> device" where
  "loops rs s = foldl (\<lambda>s r. loop r s) s rs"

definition run :: "nat \<Rightarrow> boot \<Rightarrow> readings list \<Rightarrow> device + device" where
  "run n b rs = (case setup_sketch n b power_on of Inl s \<Rightarrow> Inl s | Inr s \<Rightarrow> Inr (loops rs s))"

subsection \<open>Observations on a trace\<close>

text \<open>The calls of the transport in a trace, oldest first.\<close>

fun sends :: "effect list \<Rightarrow> effect list" where
  "sends [] = []"
| "sends (SendtoWait f n a r # es) = SendtoWait f n a r # sends es"
| "sends (e # es) = sends es"

text \<open>The frames handed to the transport, each with its length and its address, whatever
  the outcome of the call.\<close>

fun attempts :: "effect list \<Rightarrow> (string \<times> nat \<times> nat) list" where
  "attempts [] = []"
| "attempts (SendtoWait f n a r # es) = (f, n, a) # attempts es"
| "attempts (e # es) = attempts es"

text \<open>The calls of the transport whose frame starts with a given operation code followed
  by the field of a given channel.\<close>

fun frames_for :: "string \<Rightarrow> int16 \<Rightarrow> effect list \<Rightarrow> effect list" where
  "frames_for code ch [] = []"
| "frames_for code ch (SendtoWait f n a r # es) =
     (if take 10 f = code @ fmt_d 5 ch then SendtoWait f n a r # frames_for code ch es
      else frames_for code ch es)"
| "frames_for code ch (e # es) = frames_for code ch es"

text \<open>The writes to the two indicator lines and the delays, in order.\<close>

fun indicator :: "effect list \<Rightarrow> effect list" where
  "indicator [] = []"
| "indicator (DigitalWrite p l # es) = DigitalWrite p l # indicator es"
| "indicator (Delay n # es) = Delay n # indicator es"
| "indicator (e # es) = indicator es"

text \<open>The level a pin is driven to at the end of a trace: that of the last write to it.\<close>

fun driven :: "nat \<Rightarrow> effect list \<Rightarrow> level option" where
  "driven p [] = None"
| "driven p (DigitalWrite q l # es) =
     (case driven p es of Some l' \<Rightarrow> Some l' | None \<Rightarrow> if q = p then Some l else None)"
| "driven p (e # es) = driven p es"

text \<open>The inputs sampled in a trace.\<close>

fun samples :: "effect list \<Rightarrow> effect list" where
  "samples [] = []"
| "samples (DigitalRead p l # es) = DigitalRead p l # samples es"
| "samples (AnalogRead p v # es) = AnalogRead p v # samples es"
| "samples (e # es) = samples es"

text \<open>The pulse of the indicator after a delivery: green for 200 ms when the frame was
  acknowledged, orange for 200 ms when it was not, and then both lines low.\<close>

definition pulse :: "bool \<Rightarrow> effect list" where
  "pulse ack =
     (if ack then [DigitalWrite GREEN_LED_PIN HIGH, DigitalWrite ORANGE_LED_PIN LOW, Delay 200]
      else [DigitalWrite GREEN_LED_PIN LOW, DigitalWrite ORANGE_LED_PIN HIGH, Delay 200])
     @ [DigitalWrite GREEN_LED_PIN LOW, DigitalWrite ORANGE_LED_PIN LOW]"

text \<open>The contents of the command buffer after \<open>sendPots\<close> and after \<open>sendButton\<close>
  (which leaves the bytes from offset 11 on as the buffer \<open>b\<close> had them).\<close>

definition pots_frame :: "int16 \<Rightarrow> int16 \<Rightarrow> string" where
  "pots_frame ch v = POTS_TEXT @ take 5 (fmt_d 5 ch) @ take 5 (fmt_d 5 v) @ [NUL]"

definition mode_frame :: "int16 \<Rightarrow> string \<Rightarrow> string" where
  "mode_frame ch b = MODE_TEXT @ take 5 (fmt_d 5 ch) @ [NUL] @ drop 11 b"

text \<open>A reading of the 10-bit converter.\<close>

definition adc :: "int16 \<Rightarrow> bool" where
  "adc v = (0 \<le> sint v \<and> sint v \<le> 1023)"

text \<open>The sampling state: the two baselines and the two debouncers.\<close>

definition sampling :: "device \<Rightarrow> int16 \<times> int16 \<times> Bounce \<times> Bounce" where
  "sampling s = (channel_one_pot_value s, channel_two_pot_value s,
     channel_one_button_debouncer s, channel_two_button_debouncer s)"

text \<open>The readings of an iteration with a radio that never gets an acknowledgment.\<close>

definition failing :: "readings \<Rightarrow> readings" where
  "failing r = r\<lparr>button_one_ack := False, button_two_ack := False,
     pot_one_ack := False, pot_two_ack := False\<rparr>"

text \<open>The frames that the events of one iteration call for, in the order of \<open>loop\<close>: one
  for each debouncer that falls at this poll and one for each pot that has moved, each
  with the length and the address of its call. \<open>due_run\<close> lists them over several
  iterations.\<close>

definition due :: "readings \<Rightarrow> device \<Rightarrow> (string \<times> nat \<times> nat) list" where
  "due r s =
     (if fell (update (button_one_level r) (button_one_millis r) (channel_one_button_debouncer s))
      then [(mode_frame 1 (command_buf s), 16, 2)] else [])
     @ (if fell (update (button_two_level r) (button_two_millis r) (channel_two_button_debouncer s))
        then [(mode_frame 2 (command_buf s), 16, 2)] else [])
     @ (if POTS_EPS <s abs16 (pot_one_raw r - channel_one_pot_value s)
        then [(pots_frame 1 (pot_one_raw r), 16, 2)] else [])
     @ (if POTS_EPS <s abs16 (pot_two_raw r - channel_two_pot_value s)
        then [(pots_frame 2 (pot_two_raw r), 16, 2)] else [])"

fun due_run :: "readings list \<Rightarrow> device \<Rightarrow> (string \<times> nat \<times> nat) list" where
  "due_run [] s = []"
| "due_run (r # rs) s = due r s @ due_run rs (loop r s)"

text \<open>A call of the transport that was not acknowledged.\<close>

definition failed :: "string \<times> nat \<times> nat \<Rightarrow> effect" where
  "failed c = (case c of (f, n, a) \<Rightarrow> SendtoWait f n a False)"

text \<open>Inputs for examples: a start with a working radio and the pots at 500 and 300, and
  an iteration with both buttons released, the pots where they were and a radio that gets
  its acknowledgments.\<close>

definition boot_ok :: boot where
  "boot_ok = \<lparr>manager_init = True, driver_setRF = True, pot_one_start = 500, pot_two_start = 300\<rparr>"

definition idle :: readings where
  "idle = \<lparr>button_one_level = HIGH, button_one_millis = 0,
     button_two_level = HIGH, button_two_millis = 0,
     button_one_ack = True, button_two_ack = True,
     pot_one_raw = 500, pot_one_ack = True, pot_two_raw = 300, pot_two_ack = True\<rparr>"

text \<open>The device when \<open>setup\<close> has returned after such a start.\<close>

definition ready :: device where
  "ready = (case setup_sketch 0 boot_ok power_on of Inr s \<Rightarrow> s | Inl s \<Rightarrow> s)"

text \<open>The device one iteration later, in which button 1 was first seen pressed, at 20 ms.\<close>

definition primed :: device where
  "primed = loop (idle\<lparr>button_one_level := LOW, button_one_millis := 20\<rparr>) ready"

text \<open>The number of polls of a debouncer, over a sequence of raw levels with the time of
  each, at which \<open>fell\<close> holds.\<close>

fun presses :: "Bounce \<Rightarrow> (level \<times> nat) list \<Rightarrow> nat" where
  "presses b [] = 0"
| "presses b ((raw, now) # xs) =
     (if fell (update raw now b) then 1 else 0) + presses (update raw now b) xs"

text \<open>A raw signal that toggles faster than \<open>d\<close>: seen at level \<open>l\<close> since time \<open>t\<close>,
  every later sample at an unchanged level comes less than \<open>d\<close> after the sample that
  first showed this level.\<close>

fun bouncing :: "nat \<Rightarrow> level \<Rightarrow> nat \<Rightarrow> (level \<times> nat) list \<Rightarrow> bool" where
  "bouncing d l t [] = True"
| "bouncing d l t ((l', now) # xs) =
     (if l' = l then now - t < d \<and> bouncing d l t xs else bouncing d l' now xs)"

section \<open>Formatting and the command buffer\<close>

lemma length_dec_nat_1: "n < 10 \<Longrightarrow> length (dec_nat n) = 1"
  by (subst dec_nat.simps) simp

lemma length_dec_nat_2: "n < 100 \<Longrightarrow> length (dec_nat n) \<le> 2"
  by (subst dec_nat.simps) (simp add: length_dec_nat_1)

lemma length_dec_nat_3: "n < 1000 \<Longrightarrow> length (dec_nat n) \<le> 3"
proof (subst dec_nat.simps)
  assume "n < 1000"
  then have "n div 10 < 100" by simp
  then have "length (dec_nat (n div 10)) \<le> 2" by (rule length_dec_nat_2)
  then show "length (if n < 10 then [digit n] else dec_nat (n div 10) @ [digit (n mod 10)]) \<le> 3"
    by simp
qed

lemma length_dec_nat_4: "n < 10000 \<Longrightarrow> length (dec_nat n) \<le> 4"
proof (subst dec_nat.simps)
  assume "n < 10000"
  then have "n div 10 < 1000" by simp
  then have "length (dec_nat (n div 10)) \<le> 3" by (rule length_dec_nat_3)
  then show "length (if n < 10 then [digit n] else dec_nat (n div 10) @ [digit (n mod 10)]) \<le> 4"
    by simp
qed

lemma length_dec_nat_5: "n < 100000 \<Longrightarrow> length (dec_nat n) \<le> 5"
proof (subst dec_nat.simps)
  assume "n < 100000"
  then have "n div 10 < 10000" by simp
  then have "length (dec_nat (n div 10)) \<le> 4" by (rule length_dec_nat_4)
  then show "length (if n < 10 then [digit n] else dec_nat (n div 10) @ [digit (n mod 10)]) \<le> 5"
    by simp
qed

lemma sint_int16_le: "sint (v :: int16) \<le> 32767"
  using sint_lt [of v] by simp

lemma length_dec_int: "- 9999 \<le> sint (v :: int16) \<Longrightarrow> length (dec_int (sint v)) \<le> 5"
proof -
  assume lo: "- 9999 \<le> sint v"
  show ?thesis
  proof (cases "sint v < 0")
    case True
    with lo have "nat (- sint v) < 10000" by simp
    then have "length (dec_nat (nat (- sint v))) \<le> 4" by (rule length_dec_nat_4)
    with True show ?thesis by (simp add: dec_int_def)
  next
    case False
    have "sint v \<le> 32767" by (rule sint_int16_le)
    then have "nat (sint v) < 100000" by simp
    then have "length (dec_nat (nat (sint v))) \<le> 5" by (rule length_dec_nat_5)
    with False show ?thesis by (simp add: dec_int_def)
  qed
qed

lemma length_rjust: "length (rjust w t) = max w (length t)"
  by (simp add: rjust_def)

lemma length_fmt_d: "- 9999 \<le> sint v \<Longrightarrow> length (fmt_d 5 v) = 5"
  using length_dec_int [of v] by (simp add: fmt_d_def length_rjust)

lemma length_fmt_d_ge: "5 \<le> length (fmt_d 5 v)"
  by (simp add: fmt_d_def length_rjust)

lemma adc_fits: "adc v \<Longrightarrow> - 9999 \<le> sint v"
  by (simp add: adc_def)

lemma fmt_s_MODE: "fmt_s 5 MODE_TEXT = MODE_TEXT"
  by (simp add: fmt_s_def rjust_def MODE_TEXT_def)

lemma fmt_s_POTS: "fmt_s 5 POTS_TEXT = POTS_TEXT"
  by (simp add: fmt_s_def rjust_def POTS_TEXT_def)

lemma fmt_d_1: "fmt_d 5 1 = ''    1''"
  by code_simp

lemma fmt_d_2: "fmt_d 5 2 = ''    2''"
  by code_simp

lemma poke_two:
  assumes "length b = 16" "length x = 5" "5 \<le> length y"
  shows "poke (poke b 0 (snprintf 6 x)) CHANNEL_OFFSET (snprintf 6 y)
     = x @ take 5 y @ [NUL] @ drop 11 b"
  using assms by (simp add: poke_def snprintf_def CHANNEL_OFFSET_def)

lemma poke_three:
  assumes "length b = 16" "length x = 5" "5 \<le> length y" "5 \<le> length z"
  shows "poke (poke (poke b 0 (snprintf 6 x)) CHANNEL_OFFSET (snprintf 6 y))
       VALUE_OFFSET (snprintf 6 z)
     = x @ take 5 y @ take 5 z @ [NUL]"
  using assms by (simp add: poke_def snprintf_def CHANNEL_OFFSET_def VALUE_OFFSET_def)

lemma length_mode_frame: "length b = 16 \<Longrightarrow> length (mode_frame ch b) = 16"
  using length_fmt_d_ge [of ch] by (simp add: mode_frame_def MODE_TEXT_def)

lemma length_pots_frame: "length (pots_frame ch v) = 16"
  using length_fmt_d_ge [of ch] length_fmt_d_ge [of v]
  by (simp add: pots_frame_def POTS_TEXT_def)

lemma drop_mode_frame: "drop 11 (mode_frame ch b) = drop 11 b"
  using length_fmt_d_ge [of ch] by (simp add: mode_frame_def MODE_TEXT_def)

lemma mode_frame_twice: "mode_frame ch (mode_frame ch' b) = mode_frame ch b"
  using drop_mode_frame [of ch' b] by (simp add: mode_frame_def)

lemma take_10_mode_frame: "take 10 (mode_frame ch b) = MODE_TEXT @ take 5 (fmt_d 5 ch)"
  using length_fmt_d_ge [of ch] by (simp add: mode_frame_def MODE_TEXT_def)

lemma take_10_pots_frame: "take 10 (pots_frame ch v) = POTS_TEXT @ take 5 (fmt_d 5 ch)"
  using length_fmt_d_ge [of ch] by (simp add: pots_frame_def POTS_TEXT_def)

lemma pots_frame_fits:
  "- 9999 \<le> sint ch \<Longrightarrow> - 9999 \<le> sint v \<Longrightarrow>
     pots_frame ch v = ''POTS '' @ fmt_d 5 ch @ fmt_d 5 v @ [NUL]"
  by (simp add: pots_frame_def POTS_TEXT_def length_fmt_d)

lemma mode_frame_fits:
  "- 9999 \<le> sint ch \<Longrightarrow> mode_frame ch b = ''MODE '' @ fmt_d 5 ch @ [NUL] @ drop 11 b"
  by (simp add: mode_frame_def MODE_TEXT_def length_fmt_d)

section \<open>The threshold on 16-bit integers\<close>

lemma sint_diff16:
  fixes v w :: int16
  assumes "- 32768 \<le> sint v - sint w" "sint v - sint w < 32768"
  shows "sint (v - w) = sint v - sint w"
  using assms by (simp add: sint_word_ariths signed_take_bit_int_eq_self)

lemma sint_neg16:
  fixes v :: int16
  assumes "- 32768 < sint v"
  shows "sint (- v) = - sint v"
  using assms sint_lt [of v] by (simp add: sint_word_ariths signed_take_bit_int_eq_self)

lemma sint_POTS_EPS: "sint POTS_EPS = 4"
  by (simp add: POTS_EPS_def)

lemma moved_iff:
  assumes "adc v" "adc w"
  shows "(POTS_EPS <s abs16 (v - w)) = (4 < \<bar>sint v - sint w\<bar>)"
proof -
  have d: "sint (v - w) = sint v - sint w"
    using assms by (intro sint_diff16) (simp_all add: adc_def)
  have n: "sint (- (v - w)) = - (sint v - sint w)"
    using assms d sint_neg16 [of "v - w"] by (simp add: adc_def)
  show ?thesis
    using d n by (simp add: abs16_def word_sless_alt sint_POTS_EPS)
qed

section \<open>Observations distribute over a trace\<close>

lemma sends_append: "sends (xs @ ys) = sends xs @ sends ys"
  by (induction xs rule: sends.induct) simp_all

lemma attempts_append: "attempts (xs @ ys) = attempts xs @ attempts ys"
  by (induction xs rule: attempts.induct) simp_all

lemma frames_for_append: "frames_for c ch (xs @ ys) = frames_for c ch xs @ frames_for c ch ys"
  by (induction c ch xs rule: frames_for.induct) simp_all

lemma indicator_append: "indicator (xs @ ys) = indicator xs @ indicator ys"
  by (induction xs rule: indicator.induct) simp_all

lemma samples_append: "samples (xs @ ys) = samples xs @ samples ys"
  by (induction xs rule: samples.induct) simp_all

lemma driven_append:
  "driven p (xs @ ys) = (case driven p ys of Some l \<Rightarrow> Some l | None \<Rightarrow> driven p xs)"
  by (induction p xs rule: driven.induct) (simp_all split: option.splits)

lemma sends_delivery:
  "sends (delivery c f a) = [SendtoWait (take COMMAND_BUF_LEN c) COMMAND_BUF_LEN RECEIVER_ADDRESS a]"
  by (simp add: delivery_def sends_append)

lemma attempts_delivery:
  "attempts (delivery c f a) = [(take COMMAND_BUF_LEN c, COMMAND_BUF_LEN, RECEIVER_ADDRESS)]"
  by (simp add: delivery_def attempts_append)

lemma indicator_delivery: "indicator (delivery c f a) = (if f then pulse a else [])"
  by (simp add: delivery_def indicator_append pulse_def)

lemma samples_delivery: "samples (delivery c f a) = []"
  by (simp add: delivery_def samples_append)

lemma frames_for_delivery:
  "frames_for code ch (delivery c f a) =
     (if take 10 (take COMMAND_BUF_LEN c) = code @ fmt_d 5 ch
      then [SendtoWait (take COMMAND_BUF_LEN c) COMMAND_BUF_LEN RECEIVER_ADDRESS a] else [])"
  by (simp add: delivery_def frames_for_append)

lemma driven_pulse:
  "driven GREEN_LED_PIN (pulse a) = Some LOW" "driven ORANGE_LED_PIN (pulse a) = Some LOW"
  by (simp_all add: pulse_def GREEN_LED_PIN_def ORANGE_LED_PIN_def)

lemma driven_delivery:
  "driven GREEN_LED_PIN (delivery c True a) = Some LOW"
  "driven ORANGE_LED_PIN (delivery c True a) = Some LOW"
  by (simp_all add: delivery_def driven_append GREEN_LED_PIN_def ORANGE_LED_PIN_def)

section \<open>sendButton and sendPots\<close>

lemma sendButton_eq:
  assumes "length (command_buf s) = COMMAND_BUF_LEN"
  shows "sendButton ch a s =
     s\<lparr>command_buf := mode_frame ch (command_buf s),
       trace := trace s @ delivery (mode_frame ch (command_buf s)) True a\<rparr>"
  using assms poke_two [of "command_buf s" MODE_TEXT "fmt_d 5 ch"] length_fmt_d_ge [of ch]
  by (simp add: sendButton_def sendCommand_def emits_def Let_def fmt_s_MODE mode_frame_def
        COMMAND_BUF_LEN_def)
     (simp add: MODE_TEXT_def)

lemma sendPots_eq:
  assumes "length (command_buf s) = COMMAND_BUF_LEN"
  shows "sendPots ch v a s =
     s\<lparr>command_buf := pots_frame ch v,
       trace := trace s @ delivery (pots_frame ch v) False a\<rparr>"
  using assms poke_three [of "command_buf s" POTS_TEXT "fmt_d 5 ch" "fmt_d 5 v"]
    length_fmt_d_ge [of ch] length_fmt_d_ge [of v]
  by (simp add: sendPots_def sendCommand_def emits_def Let_def fmt_s_POTS pots_frame_def
        COMMAND_BUF_LEN_def)
     (simp add: POTS_TEXT_def)

lemma sendButton_other:
  "channel_one_pot_value (sendButton ch a s) = channel_one_pot_value s"
  "channel_two_pot_value (sendButton ch a s) = channel_two_pot_value s"
  "channel_one_button_debouncer (sendButton ch a s) = channel_one_button_debouncer s"
  "channel_two_button_debouncer (sendButton ch a s) = channel_two_button_debouncer s"
  by (simp_all add: sendButton_def Let_def sendCommand_def emits_def)

lemma sendPots_other:
  "channel_one_pot_value (sendPots ch v a s) = channel_one_pot_value s"
  "channel_two_pot_value (sendPots ch v a s) = channel_two_pot_value s"
  "channel_one_button_debouncer (sendPots ch v a s) = channel_one_button_debouncer s"
  "channel_two_button_debouncer (sendPots ch v a s) = channel_two_button_debouncer s"
  by (simp_all add: sendPots_def Let_def sendCommand_def emits_def)

lemma sendButton_trace:
  "trace (sendButton ch a s) = trace s @ delivery (command_buf (sendButton ch a s)) True a"
  by (simp add: sendButton_def Let_def sendCommand_def emits_def)

lemma sendPots_trace:
  "trace (sendPots ch v a s) = trace s @ delivery (command_buf (sendPots ch v a s)) False a"
  by (simp add: sendPots_def Let_def sendCommand_def emits_def)

lemma sendButton_length:
  "length (command_buf s) = COMMAND_BUF_LEN \<Longrightarrow>
     length (command_buf (sendButton ch a s)) = COMMAND_BUF_LEN"
  using length_mode_frame [of "command_buf s" ch]
  by (simp add: sendButton_eq) (simp add: COMMAND_BUF_LEN_def)

lemma sendPots_length:
  "length (command_buf s) = COMMAND_BUF_LEN \<Longrightarrow>
     length (command_buf (sendPots ch v a s)) = COMMAND_BUF_LEN"
  using length_pots_frame [of ch v]
  by (simp add: sendPots_eq) (simp add: COMMAND_BUF_LEN_def)

section \<open>One iteration of loop\<close>

lemma loop_debouncer_one:
  "channel_one_button_debouncer (loop r s) =
     update (button_one_level r) (button_one_millis r) (channel_one_button_debouncer s)"
  by (simp add: loop_def Let_def emit_def emits_def sendButton_other sendPots_other)

lemma loop_debouncer_two:
  "channel_two_button_debouncer (loop r s) =
     update (button_two_level r) (button_two_millis r) (channel_two_button_debouncer s)"
  by (simp add: loop_def Let_def emit_def emits_def sendButton_other sendPots_other)

lemma loop_pot_one:
  "channel_one_pot_value (loop r s) =
     (if POTS_EPS <s abs16 (pot_one_raw r - channel_one_pot_value s)
      then pot_one_raw r else channel_one_pot_value s)"
  by (simp add: loop_def Let_def emit_def emits_def sendButton_other sendPots_other)

lemma loop_pot_two:
  "channel_two_pot_value (loop r s) =
     (if POTS_EPS <s abs16 (pot_two_raw r - channel_two_pot_value s)
      then pot_two_raw r else channel_two_pot_value s)"
  by (simp add: loop_def Let_def emit_def emits_def sendButton_other sendPots_other)

lemma loop_length:
  "length (command_buf s) = COMMAND_BUF_LEN \<Longrightarrow>
     length (command_buf (loop r s)) = COMMAND_BUF_LEN"
  by (simp add: loop_def Let_def emit_def emits_def sendButton_length sendPots_length)

lemma loop_buf:
  assumes "length (command_buf s) = COMMAND_BUF_LEN"
  shows "command_buf (loop r s) =
     (if POTS_EPS <s abs16 (pot_two_raw r - channel_two_pot_value s)
      then pots_frame 2 (pot_two_raw r)
      else if POTS_EPS <s abs16 (pot_one_raw r - channel_one_pot_value s)
      then pots_frame 1 (pot_one_raw r)
      else if fell (channel_two_button_debouncer (loop r s))
      then mode_frame 2 (command_buf s)
      else if fell (channel_one_button_debouncer (loop r s))
      then mode_frame 1 (command_buf s)
      else command_buf s)"
proof -
  have l: "\<And>ch b. length b = COMMAND_BUF_LEN \<Longrightarrow> length (mode_frame ch b) = COMMAND_BUF_LEN"
    using length_mode_frame by (simp add: COMMAND_BUF_LEN_def)
  have p: "\<And>ch v. length (pots_frame ch v) = COMMAND_BUF_LEN"
    using length_pots_frame by (simp add: COMMAND_BUF_LEN_def)
  show ?thesis
    using assms
    by (simp add: loop_debouncer_one loop_debouncer_two)
       (simp add: loop_def Let_def emit_def emits_def sendButton_eq sendPots_eq l p
          mode_frame_twice)
qed

lemma loop_trace:
  assumes "length (command_buf s) = COMMAND_BUF_LEN"
  shows "trace (loop r s) = trace s
     @ [DigitalRead (pin (channel_one_button_debouncer s)) (button_one_level r),
        DigitalRead (pin (channel_two_button_debouncer s)) (button_two_level r)]
     @ (if fell (channel_one_button_debouncer (loop r s))
        then delivery (mode_frame 1 (command_buf s)) True (button_one_ack r) else [])
     @ (if fell (channel_two_button_debouncer (loop r s))
        then delivery (mode_frame 2 (command_buf s)) True (button_two_ack r) else [])
     @ [AnalogRead CHANNEL_ONE_POT_PIN (pot_one_raw r)]
     @ (if POTS_EPS <s abs16 (pot_one_raw r - channel_one_pot_value s)
        then delivery (pots_frame 1 (pot_one_raw r)) False (pot_one_ack r) else [])
     @ [AnalogRead CHANNEL_TWO_POT_PIN (pot_two_raw r)]
     @ (if POTS_EPS <s abs16 (pot_two_raw r - channel_two_pot_value s)
        then delivery (pots_frame 2 (pot_two_raw r)) False (pot_two_ack r) else [])"
proof -
  have l: "\<And>ch b. length b = COMMAND_BUF_LEN \<Longrightarrow> length (mode_frame ch b) = COMMAND_BUF_LEN"
    using length_mode_frame by (simp add: COMMAND_BUF_LEN_def)
  have p: "\<And>ch v. length (pots_frame ch v) = COMMAND_BUF_LEN"
    using length_pots_frame by (simp add: COMMAND_BUF_LEN_def)
  show ?thesis
    using assms
    by (simp add: loop_debouncer_one loop_debouncer_two)
       (simp add: loop_def Let_def emit_def emits_def sendButton_eq sendPots_eq l p
          mode_frame_twice)
qed

lemma loop_sends:
  assumes "length (command_buf s) = COMMAND_BUF_LEN"
  shows "sends (trace (loop r s)) = sends (trace s)
     @ (if fell (channel_one_button_debouncer (loop r s))
        then [SendtoWait (mode_frame 1 (command_buf s)) 16 2 (button_one_ack r)] else [])
     @ (if fell (channel_two_button_debouncer (loop r s))
        then [SendtoWait (mode_frame 2 (command_buf s)) 16 2 (button_two_ack r)] else [])
     @ (if POTS_EPS <s abs16 (pot_one_raw r - channel_one_pot_value s)
        then [SendtoWait (pots_frame 1 (pot_one_raw r)) 16 2 (pot_one_ack r)] else [])
     @ (if POTS_EPS <s abs16 (pot_two_raw r - channel_two_pot_value s)
        then [SendtoWait (pots_frame 2 (pot_two_raw r)) 16 2 (pot_two_ack r)] else [])"
  using assms length_mode_frame [of "command_buf s"]
  by (simp add: loop_trace sends_append sends_delivery length_pots_frame)
     (simp add: COMMAND_BUF_LEN_def RECEIVER_ADDRESS_def)

lemma loop_attempts:
  assumes "length (command_buf s) = COMMAND_BUF_LEN"
  shows "attempts (trace (loop r s)) = attempts (trace s)
     @ (if fell (channel_one_button_debouncer (loop r s))
        then [(mode_frame 1 (command_buf s), 16, 2)] else [])
     @ (if fell (channel_two_button_debouncer (loop r s))
        then [(mode_frame 2 (command_buf s), 16, 2)] else [])
     @ (if POTS_EPS <s abs16 (pot_one_raw r - channel_one_pot_value s)
        then [(pots_frame 1 (pot_one_raw r), 16, 2)] else [])
     @ (if POTS_EPS <s abs16 (pot_two_raw r - channel_two_pot_value s)
        then [(pots_frame 2 (pot_two_raw r), 16, 2)] else [])"
  using assms length_mode_frame [of "command_buf s"]
  by (simp add: loop_trace attempts_append attempts_delivery length_pots_frame)
     (simp add: COMMAND_BUF_LEN_def RECEIVER_ADDRESS_def)

lemma loop_indicator:
  assumes "length (command_buf s) = COMMAND_BUF_LEN"
  shows "indicator (trace (loop r s)) = indicator (trace s)
     @ (if fell (channel_one_button_debouncer (loop r s)) then pulse (button_one_ack r) else [])
     @ (if fell (channel_two_button_debouncer (loop r s)) then pulse (button_two_ack r) else [])"
  using assms by (simp add: loop_trace indicator_append indicator_delivery)

lemma loop_samples:
  assumes "length (command_buf s) = COMMAND_BUF_LEN"
  shows "samples (trace (loop r s)) = samples (trace s)
     @ [DigitalRead (pin (channel_one_button_debouncer s)) (button_one_level r),
        DigitalRead (pin (channel_two_button_debouncer s)) (button_two_level r),
        AnalogRead CHANNEL_ONE_POT_PIN (pot_one_raw r),
        AnalogRead CHANNEL_TWO_POT_PIN (pot_two_raw r)]"
  using assms by (simp add: loop_trace samples_append samples_delivery)

lemma frames_for_mode_frame:
  "frames_for code ch [SendtoWait (mode_frame ch' b) n a r] =
     (if code @ fmt_d 5 ch = MODE_TEXT @ take 5 (fmt_d 5 ch')
      then [SendtoWait (mode_frame ch' b) n a r] else [])"
  by (auto simp add: take_10_mode_frame)

lemma frames_for_pots_frame:
  "frames_for code ch [SendtoWait (pots_frame ch' v) n a r] =
     (if code @ fmt_d 5 ch = POTS_TEXT @ take 5 (fmt_d 5 ch')
      then [SendtoWait (pots_frame ch' v) n a r] else [])"
  by (auto simp add: take_10_pots_frame)

lemma frames_for_sends: "frames_for code ch (sends es) = frames_for code ch es"
  by (induction es rule: sends.induct) simp_all

lemma loop_pots_one:
  assumes "length (command_buf s) = COMMAND_BUF_LEN"
  shows "frames_for POTS_TEXT 1 (trace (loop r s)) = frames_for POTS_TEXT 1 (trace s)
     @ (if POTS_EPS <s abs16 (pot_one_raw r - channel_one_pot_value s)
        then [SendtoWait (pots_frame 1 (pot_one_raw r)) 16 2 (pot_one_ack r)] else [])"
proof -
  have "frames_for POTS_TEXT 1 (sends (trace (loop r s))) = frames_for POTS_TEXT 1 (sends (trace s))
     @ (if POTS_EPS <s abs16 (pot_one_raw r - channel_one_pot_value s)
        then [SendtoWait (pots_frame 1 (pot_one_raw r)) 16 2 (pot_one_ack r)] else [])"
    unfolding loop_sends [OF assms] frames_for_append
    by (simp add: frames_for_mode_frame frames_for_pots_frame fmt_d_1 fmt_d_2
          MODE_TEXT_def POTS_TEXT_def if_distrib [of "frames_for c ch" for c ch]
          del: frames_for.simps(2))
  then show ?thesis by (simp only: frames_for_sends)
qed

lemma loop_pots_two:
  assumes "length (command_buf s) = COMMAND_BUF_LEN"
  shows "frames_for POTS_TEXT 2 (trace (loop r s)) = frames_for POTS_TEXT 2 (trace s)
     @ (if POTS_EPS <s abs16 (pot_two_raw r - channel_two_pot_value s)
        then [SendtoWait (pots_frame 2 (pot_two_raw r)) 16 2 (pot_two_ack r)] else [])"
proof -
  have "frames_for POTS_TEXT 2 (sends (trace (loop r s))) = frames_for POTS_TEXT 2 (sends (trace s))
     @ (if POTS_EPS <s abs16 (pot_two_raw r - channel_two_pot_value s)
        then [SendtoWait (pots_frame 2 (pot_two_raw r)) 16 2 (pot_two_ack r)] else [])"
    unfolding loop_sends [OF assms] frames_for_append
    by (simp add: frames_for_mode_frame frames_for_pots_frame fmt_d_1 fmt_d_2
          MODE_TEXT_def POTS_TEXT_def if_distrib [of "frames_for c ch" for c ch]
          del: frames_for.simps(2))
  then show ?thesis by (simp only: frames_for_sends)
qed

lemma loop_modes_one:
  assumes "length (command_buf s) = COMMAND_BUF_LEN"
  shows "frames_for MODE_TEXT 1 (trace (loop r s)) = frames_for MODE_TEXT 1 (trace s)
     @ (if fell (channel_one_button_debouncer (loop r s))
        then [SendtoWait (mode_frame 1 (command_buf s)) 16 2 (button_one_ack r)] else [])"
proof -
  have "frames_for MODE_TEXT 1 (sends (trace (loop r s))) = frames_for MODE_TEXT 1 (sends (trace s))
     @ (if fell (channel_one_button_debouncer (loop r s))
        then [SendtoWait (mode_frame 1 (command_buf s)) 16 2 (button_one_ack r)] else [])"
    unfolding loop_sends [OF assms] frames_for_append
    by (simp add: frames_for_mode_frame frames_for_pots_frame fmt_d_1 fmt_d_2
          MODE_TEXT_def POTS_TEXT_def if_distrib [of "frames_for c ch" for c ch]
          del: frames_for.simps(2))
  then show ?thesis by (simp only: frames_for_sends)
qed

lemma loop_modes_two:
  assumes "length (command_buf s) = COMMAND_BUF_LEN"
  shows "frames_for MODE_TEXT 2 (trace (loop r s)) = frames_for MODE_TEXT 2 (trace s)
     @ (if fell (channel_two_button_debouncer (loop r s))
        then [SendtoWait (mode_frame 2 (command_buf s)) 16 2 (button_two_ack r)] else [])"
proof -
  have "frames_for MODE_TEXT 2 (sends (trace (loop r s))) = frames_for MODE_TEXT 2 (sends (trace s))
     @ (if fell (channel_two_button_debouncer (loop r s))
        then [SendtoWait (mode_frame 2 (command_buf s)) 16 2 (button_two_ack r)] else [])"
    unfolding loop_sends [OF assms] frames_for_append
    by (simp add: frames_for_mode_frame frames_for_pots_frame fmt_d_1 fmt_d_2
          MODE_TEXT_def POTS_TEXT_def if_distrib [of "frames_for c ch" for c ch]
          del: frames_for.simps(2))
  then show ?thesis by (simp only: frames_for_sends)
qed

section \<open>The device after setup\<close>

lemma spin_trace: "trace (spin n s) = trace s @ replicate n (Delay 1000)"
  by (induction n arbitrary: s) (simp_all add: emit_def emits_def replicate_app_Cons_same)

lemma spin_other:
  "command_buf (spin n s) = command_buf s"
  "sampling (spin n s) = sampling s"
  by (induction n arbitrary: s) (simp_all add: emit_def emits_def sampling_def)

lemma sends_replicate_Delay: "sends (replicate n (Delay m)) = []"
  by (induction n) simp_all

lemma samples_replicate_Delay: "samples (replicate n (Delay m)) = []"
  by (induction n) simp_all

lemma length_power_on: "length (command_buf power_on) = COMMAND_BUF_LEN"
  by (simp add: power_on_def)

lemma setup_sketch_ok:
  assumes "manager_init b" "driver_setRF b"
  shows "\<exists>s. setup_sketch n b power_on = Inr s
     \<and> command_buf s = replicate 16 NUL
     \<and> channel_one_pot_value s = pot_one_start b
     \<and> channel_two_pot_value s = pot_two_start b
     \<and> channel_one_button_debouncer s = Bounce_new\<lparr>pin := 4\<rparr>
     \<and> channel_two_button_debouncer s = Bounce_new\<lparr>pin := 5\<rparr>
     \<and> sends (trace s) = []"
  using assms
  by (simp add: setup_sketch_def Let_def emit_def emits_def power_on_def COMMAND_BUF_LEN_def
        attach_def interval_def Bounce_new_def CHANNEL_ONE_BUTTON_PIN_def
        CHANNEL_TWO_BUTTON_PIN_def)

lemma ready_fields:
  "command_buf ready = replicate 16 NUL"
  "channel_one_pot_value ready = 500"
  "channel_two_pot_value ready = 300"
  "channel_one_button_debouncer ready = Bounce_new\<lparr>pin := 4\<rparr>"
  "channel_two_button_debouncer ready = Bounce_new\<lparr>pin := 5\<rparr>"
  "sends (trace ready) = []"
  using setup_sketch_ok [of boot_ok 0]
  by (auto simp add: ready_def boot_ok_def)

lemma length_ready: "length (command_buf ready) = COMMAND_BUF_LEN"
  by (simp add: ready_fields COMMAND_BUF_LEN_def)

section \<open>The frames\<close>

text \<open>
  C1. Every call of \<open>sendPots\<close> for a channel and a value that fit their fields (as the
  channels 1 and 2 and every reading of the converter do) hands exactly one frame to the
  transport: 16 bytes for address 2, made of \<open>POTS \<close> at offset 0, the channel
  right-justified and padded with spaces in the 5 bytes at offset 5, the value likewise in
  the 5 bytes at offset 10, and the terminator. In \<open>loop\<close>, a reading of pot 1 that is
  more than \<open>POTS_EPS\<close> away from the last reported value hands over this one frame
  for channel 1 with the reading, and a reading of pot 2 does so for channel 2.
\<close>

theorem sendPots_hands_over_one_frame:
  assumes "length (command_buf s) = COMMAND_BUF_LEN"
    and "- 9999 \<le> sint channel" and "- 9999 \<le> sint val"
    and "adc (pot_one_raw r)" and "adc (pot_two_raw r)"
  shows "sends (trace (sendPots channel val ack s)) = sends (trace s)
        @ [SendtoWait (''POTS '' @ fmt_d 5 channel @ fmt_d 5 val @ [NUL]) 16 2 ack]
    \<and> length (''POTS '' @ fmt_d 5 channel @ fmt_d 5 val @ [NUL]) = 16
    \<and> fmt_d 5 channel
        = replicate (5 - length (dec_int (sint channel))) CHR '' '' @ dec_int (sint channel)
    \<and> length (fmt_d 5 channel) = 5
    \<and> fmt_d 5 val = replicate (5 - length (dec_int (sint val))) CHR '' '' @ dec_int (sint val)
    \<and> length (fmt_d 5 val) = 5
    \<and> (POTS_EPS <s abs16 (pot_one_raw r - channel_one_pot_value s) \<longrightarrow>
         frames_for ''POTS '' 1 (trace (loop r s)) = frames_for ''POTS '' 1 (trace s)
           @ [SendtoWait (''POTS '' @ ''    1'' @ fmt_d 5 (pot_one_raw r) @ [NUL]) 16 2
                (pot_one_ack r)])
    \<and> (POTS_EPS <s abs16 (pot_two_raw r - channel_two_pot_value s) \<longrightarrow>
         frames_for ''POTS '' 2 (trace (loop r s)) = frames_for ''POTS '' 2 (trace s)
           @ [SendtoWait (''POTS '' @ ''    2'' @ fmt_d 5 (pot_two_raw r) @ [NUL]) 16 2
                (pot_two_ack r)])"
proof -
  have one: "pots_frame 1 (pot_one_raw r) = ''POTS '' @ ''    1'' @ fmt_d 5 (pot_one_raw r) @ [NUL]"
    using pots_frame_fits [of 1 "pot_one_raw r"] adc_fits [OF assms(4)] by (simp add: fmt_d_1)
  have two: "pots_frame 2 (pot_two_raw r) = ''POTS '' @ ''    2'' @ fmt_d 5 (pot_two_raw r) @ [NUL]"
    using pots_frame_fits [of 2 "pot_two_raw r"] adc_fits [OF assms(5)] by (simp add: fmt_d_2)
  have "sends (trace (sendPots channel val ack s)) = sends (trace s)
        @ [SendtoWait (''POTS '' @ fmt_d 5 channel @ fmt_d 5 val @ [NUL]) 16 2 ack]"
    using length_pots_frame [of channel val] pots_frame_fits [OF assms(2) assms(3)]
    by (simp add: sendPots_eq [OF assms(1)] sends_append sends_delivery)
       (simp add: COMMAND_BUF_LEN_def RECEIVER_ADDRESS_def)
  moreover have "length (''POTS '' @ fmt_d 5 channel @ fmt_d 5 val @ [NUL]) = 16"
    by (simp add: length_fmt_d assms)
  moreover have "fmt_d 5 channel
      = replicate (5 - length (dec_int (sint channel))) CHR '' '' @ dec_int (sint channel)"
    by (simp add: fmt_d_def rjust_def)
  moreover have "fmt_d 5 val
      = replicate (5 - length (dec_int (sint val))) CHR '' '' @ dec_int (sint val)"
    by (simp add: fmt_d_def rjust_def)
  moreover have "length (fmt_d 5 channel) = 5" "length (fmt_d 5 val) = 5"
    by (simp_all add: length_fmt_d assms)
  moreover have "POTS_EPS <s abs16 (pot_one_raw r - channel_one_pot_value s) \<longrightarrow>
         frames_for ''POTS '' 1 (trace (loop r s)) = frames_for ''POTS '' 1 (trace s)
           @ [SendtoWait (''POTS '' @ ''    1'' @ fmt_d 5 (pot_one_raw r) @ [NUL]) 16 2
                (pot_one_ack r)]"
    using loop_pots_one [OF assms(1), of r] one by (simp add: POTS_TEXT_def)
  moreover have "POTS_EPS <s abs16 (pot_two_raw r - channel_two_pot_value s) \<longrightarrow>
         frames_for ''POTS '' 2 (trace (loop r s)) = frames_for ''POTS '' 2 (trace s)
           @ [SendtoWait (''POTS '' @ ''    2'' @ fmt_d 5 (pot_two_raw r) @ [NUL]) 16 2
                (pot_two_ack r)]"
    using loop_pots_two [OF assms(1), of r] two by (simp add: POTS_TEXT_def)
  ultimately show ?thesis by blast
qed


theorem sendPots_hands_over_one_frame_witness:
  "sends (trace (sendPots 1 506 False ready))
     = [SendtoWait (''POTS '' @ ''    1'' @ ''  506'' @ [NUL]) 16 2 False]
   \<and> frames_for ''POTS '' 1 (trace (loop (idle\<lparr>pot_one_raw := 506\<rparr>) ready))
     = [SendtoWait (''POTS '' @ ''    1'' @ ''  506'' @ [NUL]) 16 2 True]"
proof -
  have f: "fmt_d 5 506 = ''  506''" by code_simp
  have m: "POTS_EPS <s abs16 (506 - 500)" by (simp add: POTS_EPS_def abs16_def word_sless_alt)
  have z: "frames_for ''POTS '' 1 (trace ready) = []"
    using frames_for_sends [of "''POTS ''" 1 "trace ready"] by (simp add: ready_fields)
  have a: "adc (pot_one_raw (idle\<lparr>pot_one_raw := 506\<rparr>))" "adc (pot_two_raw (idle\<lparr>pot_one_raw := 506\<rparr>))"
    by (simp_all add: adc_def idle_def)
  show ?thesis
    using sendPots_hands_over_one_frame [OF length_ready, of 1 506 "idle\<lparr>pot_one_raw := 506\<rparr>" False, OF _ _ a] m z
    by (simp add: f fmt_d_1 ready_fields idle_def)
qed

text \<open>
  C2, as it holds on the code. \<open>sendButton\<close> writes the operation code, the channel and
  one terminator: the frame it hands to the transport, once, with 16 bytes for address 2,
  is \<open>MODE \<close> at offset 0, the channel right-justified and padded with spaces in the 5
  bytes at offset 5, the terminator at offset 10, and from offset 11 on the bytes that the
  buffer held before the call. The value field is not written: on the buffer as it is
  after power-on its bytes are all the terminator, none of them a space or a digit.
\<close>

theorem sendButton_leaves_value_field:
  assumes "length (command_buf s) = COMMAND_BUF_LEN" and "- 9999 \<le> sint channel"
  shows "sends (trace (sendButton channel ack s)) = sends (trace s)
        @ [SendtoWait (''MODE '' @ fmt_d 5 channel @ [NUL] @ drop 11 (command_buf s)) 16 2 ack]
    \<and> length (''MODE '' @ fmt_d 5 channel @ [NUL] @ drop 11 (command_buf s)) = 16
    \<and> fmt_d 5 channel
        = replicate (5 - length (dec_int (sint channel))) CHR '' '' @ dec_int (sint channel)
    \<and> length (fmt_d 5 channel) = 5
    \<and> (command_buf s = replicate 16 NUL \<longrightarrow>
         sends (trace (sendButton channel ack s)) = sends (trace s)
           @ [SendtoWait (''MODE '' @ fmt_d 5 channel @ replicate 6 NUL) 16 2 ack])"
proof -
  have s: "sends (trace (sendButton channel ack s)) = sends (trace s)
        @ [SendtoWait (''MODE '' @ fmt_d 5 channel @ [NUL] @ drop 11 (command_buf s)) 16 2 ack]"
    using assms(1) length_mode_frame [of "command_buf s" channel] mode_frame_fits [OF assms(2)]
    by (simp add: sendButton_eq [OF assms(1)] sends_append sends_delivery)
       (simp add: COMMAND_BUF_LEN_def RECEIVER_ADDRESS_def)
  have z: "[NUL] @ drop 11 (replicate 16 NUL) = replicate 6 NUL"
    by (simp add: numeral_eq_Suc)
  have "length (''MODE '' @ fmt_d 5 channel @ [NUL] @ drop 11 (command_buf s)) = 16"
    using assms by (simp add: length_fmt_d COMMAND_BUF_LEN_def)
  moreover have "fmt_d 5 channel
      = replicate (5 - length (dec_int (sint channel))) CHR '' '' @ dec_int (sint channel)"
    by (simp add: fmt_d_def rjust_def)
  moreover have "length (fmt_d 5 channel) = 5"
    by (simp add: length_fmt_d assms)
  moreover have "command_buf s = replicate 16 NUL \<longrightarrow>
         sends (trace (sendButton channel ack s)) = sends (trace s)
           @ [SendtoWait (''MODE '' @ fmt_d 5 channel @ replicate 6 NUL) 16 2 ack]"
    using s z by simp
  ultimately show ?thesis using s by blast
qed

theorem sendButton_leaves_value_field_witness:
  "sends (trace (sendButton 1 True ready))
     = [SendtoWait (''MODE '' @ ''    1'' @ [NUL, NUL, NUL, NUL, NUL, NUL]) 16 2 True]"
proof -
  have r: "replicate 6 NUL = [NUL, NUL, NUL, NUL, NUL, NUL]"
    by (simp add: numeral_eq_Suc)
  have fits: "- 9999 \<le> sint (1 :: int16)" by simp
  have "command_buf ready = replicate 16 NUL \<longrightarrow>
         sends (trace (sendButton 1 True ready)) = sends (trace ready)
           @ [SendtoWait (''MODE '' @ fmt_d 5 1 @ replicate 6 NUL) 16 2 True]"
    using sendButton_leaves_value_field [OF length_ready fits, of True] by blast
  then show ?thesis
    by (simp add: fmt_d_1 ready_fields r)
qed

text \<open>
  The claim C2 as it was stated fails: pressing button 1 on the device as \<open>setup\<close> left
  it (held from 20 ms to 30 ms on the clock) makes \<open>loop\<close> hand over a frame whose value
  field holds five terminators, not \<open>    0\<close>; and after a \<open>POTS\<close> frame with the
  value 506 the value field of the next \<open>MODE\<close> frame holds a terminator and then the
  end of the old value.
\<close>

theorem mode_frame_value_field_counterexample:
  "sends (trace (loop (idle\<lparr>button_one_level := LOW, button_one_millis := 30\<rparr>)
                  (loop (idle\<lparr>button_one_level := LOW, button_one_millis := 20\<rparr>) ready)))
     = [SendtoWait (''MODE '' @ ''    1'' @ [NUL, NUL, NUL, NUL, NUL, NUL]) 16 2 True]
   \<and> [NUL, NUL, NUL, NUL, NUL] \<noteq> ''    0''
   \<and> sends (trace (sendButton 1 True (sendPots 1 506 True ready)))
     = [SendtoWait (''POTS '' @ ''    1'' @ ''  506'' @ [NUL]) 16 2 True,
        SendtoWait (''MODE '' @ ''    1'' @ [NUL, CHR '' '', CHR ''5'', CHR ''0'', CHR ''6'', NUL])
          16 2 True]"
proof -
  define r1 where "r1 = idle\<lparr>button_one_level := LOW, button_one_millis := 20\<rparr>"
  define r2 where "r2 = idle\<lparr>button_one_level := LOW, button_one_millis := 30\<rparr>"
  define s1 where "s1 = loop r1 ready"
  have still: "\<not> POTS_EPS <s abs16 (500 - 500)" "\<not> POTS_EPS <s abs16 (300 - 300)"
    by (simp_all add: POTS_EPS_def abs16_def word_sless_alt)
  have l1: "length (command_buf s1) = COMMAND_BUF_LEN"
    unfolding s1_def by (rule loop_length [OF length_ready])
  have d1: "channel_one_button_debouncer s1 = Bounce_new\<lparr>pin := 4, unstable := LOW, previous_millis := 20\<rparr>"
    "channel_two_button_debouncer s1 = Bounce_new\<lparr>pin := 5\<rparr>"
    unfolding s1_def
    by (simp_all add: loop_debouncer_one loop_debouncer_two ready_fields r1_def idle_def
          update_def Bounce_new_def)
  have p1: "channel_one_pot_value s1 = 500" "channel_two_pot_value s1 = 300"
    unfolding s1_def using still
    by (simp_all add: loop_pot_one loop_pot_two ready_fields r1_def idle_def)
  have b1: "command_buf s1 = replicate 16 NUL"
    unfolding s1_def using still
    by (simp add: loop_buf [OF length_ready] loop_debouncer_one loop_debouncer_two ready_fields
          r1_def idle_def update_def Bounce_new_def fell_def)
  have t1: "sends (trace s1) = []"
    unfolding s1_def using still
    by (simp add: loop_sends [OF length_ready] loop_debouncer_one loop_debouncer_two ready_fields
          r1_def idle_def update_def Bounce_new_def fell_def)
  have m1: "mode_frame 1 (replicate 16 NUL) = ''MODE '' @ ''    1'' @ [NUL, NUL, NUL, NUL, NUL, NUL]"
  proof -
    have "replicate 5 NUL = [NUL, NUL, NUL, NUL, NUL]"
      by (simp add: numeral_eq_Suc)
    then show ?thesis
      by (simp add: mode_frame_def MODE_TEXT_def fmt_d_1)
  qed
  have first: "sends (trace (loop r2 s1))
     = [SendtoWait (''MODE '' @ ''    1'' @ [NUL, NUL, NUL, NUL, NUL, NUL]) 16 2 True]"
    using still
    by (simp add: loop_sends [OF l1] loop_debouncer_one loop_debouncer_two d1 p1 b1 t1 m1
          r2_def idle_def update_def Bounce_new_def fell_def)
  have f: "fmt_d 5 506 = ''  506''" by code_simp
  have pf: "pots_frame 1 506 = ''POTS '' @ ''    1'' @ ''  506'' @ [NUL]"
    by (simp add: pots_frame_def POTS_TEXT_def fmt_d_1 f)
  define s2 where "s2 = sendPots 1 506 True ready"
  have l2: "length (command_buf s2) = COMMAND_BUF_LEN"
    unfolding s2_def by (rule sendPots_length [OF length_ready])
  have b2: "command_buf s2 = ''POTS '' @ ''    1'' @ ''  506'' @ [NUL]"
    unfolding s2_def by (simp add: sendPots_eq [OF length_ready] pf)
  have t2: "sends (trace s2) = [SendtoWait (''POTS '' @ ''    1'' @ ''  506'' @ [NUL]) 16 2 True]"
    unfolding s2_def
    by (simp add: sendPots_eq [OF length_ready] sends_append sends_delivery ready_fields pf
          COMMAND_BUF_LEN_def RECEIVER_ADDRESS_def)
  have second: "sends (trace (sendButton 1 True s2))
     = [SendtoWait (''POTS '' @ ''    1'' @ ''  506'' @ [NUL]) 16 2 True,
        SendtoWait (''MODE '' @ ''    1'' @ [NUL, CHR '' '', CHR ''5'', CHR ''0'', CHR ''6'', NUL])
          16 2 True]"
    by (simp add: sendButton_eq [OF l2] sends_append sends_delivery t2 b2
          mode_frame_def MODE_TEXT_def fmt_d_1 COMMAND_BUF_LEN_def RECEIVER_ADDRESS_def)
  have third: "[NUL, NUL, NUL, NUL, NUL] \<noteq> ''    0''"
    by (simp add: NUL_def)
  show ?thesis
    using first second third unfolding s1_def s2_def r1_def r2_def by blast
qed

section \<open>The status indicator\<close>

text \<open>
  C8. The indicator is pulsed for the deliveries of \<open>sendButton\<close> and for no other:
  the writes to the two lines and the delays that \<open>sendButton\<close> adds are the pulse,
  green high and orange low for 200 ms and then both low when the frame was acknowledged,
  orange high and green low for 200 ms and then both low when it was not; \<open>sendPots\<close>
  adds no write and no delay. One iteration of \<open>loop\<close> adds a pulse for each debouncer
  that fell, with the outcome of that delivery, and nothing for the pots.
\<close>

theorem indicator_pulsed_for_buttons_only:
  assumes "length (command_buf s) = COMMAND_BUF_LEN"
  shows "indicator (trace (sendButton ch ack s)) = indicator (trace s) @ pulse ack
    \<and> pulse True = [DigitalWrite GREEN_LED_PIN HIGH, DigitalWrite ORANGE_LED_PIN LOW, Delay 200,
                    DigitalWrite GREEN_LED_PIN LOW, DigitalWrite ORANGE_LED_PIN LOW]
    \<and> pulse False = [DigitalWrite GREEN_LED_PIN LOW, DigitalWrite ORANGE_LED_PIN HIGH, Delay 200,
                     DigitalWrite GREEN_LED_PIN LOW, DigitalWrite ORANGE_LED_PIN LOW]
    \<and> indicator (trace (sendPots ch v ack s)) = indicator (trace s)
    \<and> indicator (trace (loop r s)) = indicator (trace s)
        @ (if fell (update (button_one_level r) (button_one_millis r)
                      (channel_one_button_debouncer s))
           then pulse (button_one_ack r) else [])
        @ (if fell (update (button_two_level r) (button_two_millis r)
                      (channel_two_button_debouncer s))
           then pulse (button_two_ack r) else [])"
proof -
  have "indicator (trace (sendButton ch ack s)) = indicator (trace s) @ pulse ack"
    by (simp add: sendButton_trace indicator_append indicator_delivery)
  moreover have "indicator (trace (sendPots ch v ack s)) = indicator (trace s)"
    by (simp add: sendPots_trace indicator_append indicator_delivery)
  moreover have "indicator (trace (loop r s)) = indicator (trace s)
        @ (if fell (update (button_one_level r) (button_one_millis r)
                      (channel_one_button_debouncer s))
           then pulse (button_one_ack r) else [])
        @ (if fell (update (button_two_level r) (button_two_millis r)
                      (channel_two_button_debouncer s))
           then pulse (button_two_ack r) else [])"
    using loop_indicator [OF assms, of r] by (simp add: loop_debouncer_one loop_debouncer_two)
  moreover have "pulse True = [DigitalWrite GREEN_LED_PIN HIGH, DigitalWrite ORANGE_LED_PIN LOW,
      Delay 200, DigitalWrite GREEN_LED_PIN LOW, DigitalWrite ORANGE_LED_PIN LOW]"
    by (simp add: pulse_def)
  moreover have "pulse False = [DigitalWrite GREEN_LED_PIN LOW, DigitalWrite ORANGE_LED_PIN HIGH,
      Delay 200, DigitalWrite GREEN_LED_PIN LOW, DigitalWrite ORANGE_LED_PIN LOW]"
    by (simp add: pulse_def)
  ultimately show ?thesis by blast
qed

theorem indicator_pulsed_for_buttons_only_witness:
  "indicator (trace (sendButton 1 False power_on))
     = [DigitalWrite 6 LOW, DigitalWrite 7 HIGH, Delay 200, DigitalWrite 6 LOW, DigitalWrite 7 LOW]
   \<and> indicator (trace (sendPots 1 506 False power_on)) = []"
  using indicator_pulsed_for_buttons_only [OF length_power_on, of 1 False 506 idle]
  by (simp add: power_on_def GREEN_LED_PIN_def ORANGE_LED_PIN_def)

text \<open>
  C10. When \<open>sendButton\<close> returns, whatever the outcome of the delivery, the last write to
  the green line and the last write to the orange line have both driven it low.
\<close>

theorem indicator_low_after_sendButton:
  "driven GREEN_LED_PIN (trace (sendButton ch ack s)) = Some LOW
   \<and> driven ORANGE_LED_PIN (trace (sendButton ch ack s)) = Some LOW"
  by (simp add: sendButton_trace driven_append driven_delivery)

theorem indicator_low_after_sendButton_witness:
  "driven 6 (trace (sendButton 1 False power_on)) = Some LOW
   \<and> driven 7 (trace (sendButton 1 True power_on)) = Some LOW"
  using indicator_low_after_sendButton [of 1 False power_on]
    indicator_low_after_sendButton [of 1 True power_on]
  by (simp add: GREEN_LED_PIN_def ORANGE_LED_PIN_def)

section \<open>A failed start\<close>

text \<open>
  C6. When \<open>manager.init\<close> or \<open>driver.setRF\<close> fails, \<open>setup\<close> does not return: after
  any number \<open>n\<close> of rounds it is still inside its inert loop, so that no iteration of
  \<open>loop\<close> takes place whatever inputs wait for it; the trace up to there ends with
  \<open>n\<close> delays of one second, no input has been sampled and nothing has been handed to
  the transport.
\<close>

theorem failed_start_is_inert:
  assumes "\<not> manager_init b \<or> \<not> driver_setRF b"
  shows "\<exists>s pre. run n b rs = Inl s
     \<and> trace s = pre @ replicate n (Delay 1000)
     \<and> sends (trace s) = [] \<and> samples (trace s) = []
     \<and> sampling s = sampling power_on \<and> command_buf s = command_buf power_on"
proof (cases "manager_init b")
  case False
  then show ?thesis
    by (simp add: run_def setup_sketch_def Let_def emit_def emits_def spin_trace spin_other
          sends_append samples_append sends_replicate_Delay samples_replicate_Delay)
       (simp add: power_on_def sampling_def)
next
  case True
  with assms have "\<not> driver_setRF b" by simp
  with True show ?thesis
    by (simp add: run_def setup_sketch_def Let_def emit_def emits_def spin_trace spin_other
          sends_append samples_append sends_replicate_Delay samples_replicate_Delay)
       (simp add: power_on_def sampling_def)
qed

theorem failed_start_is_inert_witness:
  "\<exists>s pre. run 3 (boot_ok\<lparr>driver_setRF := False\<rparr>) [idle\<lparr>pot_one_raw := 900\<rparr>] = Inl s
     \<and> trace s = pre @ [Delay 1000, Delay 1000, Delay 1000]
     \<and> sends (trace s) = [] \<and> samples (trace s) = []"
proof -
  have h: "\<not> manager_init (boot_ok\<lparr>driver_setRF := False\<rparr>)
      \<or> \<not> driver_setRF (boot_ok\<lparr>driver_setRF := False\<rparr>)"
    by simp
  have r: "replicate 3 (Delay 1000) = [Delay 1000, Delay 1000, Delay 1000]"
    by (simp add: numeral_eq_Suc)
  show ?thesis
    using failed_start_is_inert [OF h, of 3 "[idle\<lparr>pot_one_raw := 900\<rparr>]"] unfolding r
    by blast
qed

section \<open>Several iterations\<close>

lemma loops_Nil: "loops [] s = s"
  by (simp add: loops_def)

lemma loops_Cons: "loops (r # rs) s = loops rs (loop r s)"
  by (simp add: loops_def)

lemma loops_length:
  "length (command_buf s) = COMMAND_BUF_LEN \<Longrightarrow>
     length (command_buf (loops rs s)) = COMMAND_BUF_LEN"
  by (induction rs arbitrary: s) (simp_all add: loops_Nil loops_Cons loop_length)

lemma loops_quiet_one:
  assumes "length (command_buf s) = COMMAND_BUF_LEN" and "adc (channel_one_pot_value s)"
    and "\<forall>q\<in>set rs. adc (pot_one_raw q)
           \<and> \<bar>sint (pot_one_raw q) - sint (channel_one_pot_value s)\<bar> \<le> 4"
  shows "frames_for POTS_TEXT 1 (trace (loops rs s)) = frames_for POTS_TEXT 1 (trace s)
     \<and> channel_one_pot_value (loops rs s) = channel_one_pot_value s"
  using assms
proof (induction rs arbitrary: s)
  case Nil
  then show ?case by (simp add: loops_Nil)
next
  case (Cons r rs)
  have still: "\<not> POTS_EPS <s abs16 (pot_one_raw r - channel_one_pot_value s)"
    using Cons.prems by (simp add: moved_iff)
  have base: "channel_one_pot_value (loop r s) = channel_one_pot_value s"
    using still by (simp add: loop_pot_one)
  have sent: "frames_for POTS_TEXT 1 (trace (loop r s)) = frames_for POTS_TEXT 1 (trace s)"
    using still by (simp add: loop_pots_one [OF Cons.prems(1)])
  have "frames_for POTS_TEXT 1 (trace (loops rs (loop r s)))
        = frames_for POTS_TEXT 1 (trace (loop r s))
     \<and> channel_one_pot_value (loops rs (loop r s)) = channel_one_pot_value (loop r s)"
    using Cons.prems by (intro Cons.IH) (simp_all add: loop_length base)
  then show ?case by (simp add: loops_Cons base sent)
qed

lemma loops_quiet_two:
  assumes "length (command_buf s) = COMMAND_BUF_LEN" and "adc (channel_two_pot_value s)"
    and "\<forall>q\<in>set rs. adc (pot_two_raw q)
           \<and> \<bar>sint (pot_two_raw q) - sint (channel_two_pot_value s)\<bar> \<le> 4"
  shows "frames_for POTS_TEXT 2 (trace (loops rs s)) = frames_for POTS_TEXT 2 (trace s)
     \<and> channel_two_pot_value (loops rs s) = channel_two_pot_value s"
  using assms
proof (induction rs arbitrary: s)
  case Nil
  then show ?case by (simp add: loops_Nil)
next
  case (Cons r rs)
  have still: "\<not> POTS_EPS <s abs16 (pot_two_raw r - channel_two_pot_value s)"
    using Cons.prems by (simp add: moved_iff)
  have base: "channel_two_pot_value (loop r s) = channel_two_pot_value s"
    using still by (simp add: loop_pot_two)
  have sent: "frames_for POTS_TEXT 2 (trace (loop r s)) = frames_for POTS_TEXT 2 (trace s)"
    using still by (simp add: loop_pots_two [OF Cons.prems(1)])
  have "frames_for POTS_TEXT 2 (trace (loops rs (loop r s)))
        = frames_for POTS_TEXT 2 (trace (loop r s))
     \<and> channel_two_pot_value (loops rs (loop r s)) = channel_two_pot_value (loop r s)"
    using Cons.prems by (intro Cons.IH) (simp_all add: loop_length base)
  then show ?case by (simp add: loops_Cons base sent)
qed

lemma pots_frame_one: "adc v \<Longrightarrow> pots_frame 1 v = ''POTS '' @ ''    1'' @ fmt_d 5 v @ [NUL]"
  using pots_frame_fits [of 1 v] by (simp add: fmt_d_1 adc_fits)

lemma pots_frame_two: "adc v \<Longrightarrow> pots_frame 2 v = ''POTS '' @ ''    2'' @ fmt_d 5 v @ [NUL]"
  using pots_frame_fits [of 2 v] by (simp add: fmt_d_2 adc_fits)

section \<open>The pots\<close>

text \<open>
  C3. For readings and baselines in the range of the converter, an iteration of \<open>loop\<close>
  hands over a \<open>POTS\<close> frame for a channel if and only if the reading of that channel
  is more than 4 away from the last reported value; the frame then carries the reading,
  which becomes the last reported value, and otherwise the last reported value stays as it
  was. Over any number of iterations whose readings all stay within 4 of the last reported
  value, no \<open>POTS\<close> frame for the channel is handed over and the value stays.
\<close>

theorem pot_poll_hysteresis:
  assumes "length (command_buf s) = COMMAND_BUF_LEN"
    and "adc (channel_one_pot_value s)" and "adc (channel_two_pot_value s)"
    and "adc (pot_one_raw r)" and "adc (pot_two_raw r)"
  shows "frames_for ''POTS '' 1 (trace (loop r s)) = frames_for ''POTS '' 1 (trace s)
        @ (if 4 < \<bar>sint (pot_one_raw r) - sint (channel_one_pot_value s)\<bar>
           then [SendtoWait (''POTS '' @ ''    1'' @ fmt_d 5 (pot_one_raw r) @ [NUL]) 16 2
                   (pot_one_ack r)]
           else [])
    \<and> channel_one_pot_value (loop r s)
        = (if 4 < \<bar>sint (pot_one_raw r) - sint (channel_one_pot_value s)\<bar>
           then pot_one_raw r else channel_one_pot_value s)
    \<and> frames_for ''POTS '' 2 (trace (loop r s)) = frames_for ''POTS '' 2 (trace s)
        @ (if 4 < \<bar>sint (pot_two_raw r) - sint (channel_two_pot_value s)\<bar>
           then [SendtoWait (''POTS '' @ ''    2'' @ fmt_d 5 (pot_two_raw r) @ [NUL]) 16 2
                   (pot_two_ack r)]
           else [])
    \<and> channel_two_pot_value (loop r s)
        = (if 4 < \<bar>sint (pot_two_raw r) - sint (channel_two_pot_value s)\<bar>
           then pot_two_raw r else channel_two_pot_value s)
    \<and> ((\<forall>q\<in>set rs. adc (pot_one_raw q)
            \<and> \<bar>sint (pot_one_raw q) - sint (channel_one_pot_value s)\<bar> \<le> 4) \<longrightarrow>
         frames_for ''POTS '' 1 (trace (loops rs s)) = frames_for ''POTS '' 1 (trace s)
         \<and> channel_one_pot_value (loops rs s) = channel_one_pot_value s)
    \<and> ((\<forall>q\<in>set rs. adc (pot_two_raw q)
            \<and> \<bar>sint (pot_two_raw q) - sint (channel_two_pot_value s)\<bar> \<le> 4) \<longrightarrow>
         frames_for ''POTS '' 2 (trace (loops rs s)) = frames_for ''POTS '' 2 (trace s)
         \<and> channel_two_pot_value (loops rs s) = channel_two_pot_value s)"
proof -
  have m1: "(POTS_EPS <s abs16 (pot_one_raw r - channel_one_pot_value s))
      = (4 < \<bar>sint (pot_one_raw r) - sint (channel_one_pot_value s)\<bar>)"
    using assms by (simp add: moved_iff)
  have m2: "(POTS_EPS <s abs16 (pot_two_raw r - channel_two_pot_value s))
      = (4 < \<bar>sint (pot_two_raw r) - sint (channel_two_pot_value s)\<bar>)"
    using assms by (simp add: moved_iff)
  have a: "frames_for ''POTS '' 1 (trace (loop r s)) = frames_for ''POTS '' 1 (trace s)
        @ (if 4 < \<bar>sint (pot_one_raw r) - sint (channel_one_pot_value s)\<bar>
           then [SendtoWait (''POTS '' @ ''    1'' @ fmt_d 5 (pot_one_raw r) @ [NUL]) 16 2
                   (pot_one_ack r)]
           else [])"
    using loop_pots_one [OF assms(1), of r] pots_frame_one [OF assms(4)]
    by (simp add: m1 POTS_TEXT_def)
  have b: "channel_one_pot_value (loop r s)
        = (if 4 < \<bar>sint (pot_one_raw r) - sint (channel_one_pot_value s)\<bar>
           then pot_one_raw r else channel_one_pot_value s)"
    by (simp add: loop_pot_one m1)
  have c: "frames_for ''POTS '' 2 (trace (loop r s)) = frames_for ''POTS '' 2 (trace s)
        @ (if 4 < \<bar>sint (pot_two_raw r) - sint (channel_two_pot_value s)\<bar>
           then [SendtoWait (''POTS '' @ ''    2'' @ fmt_d 5 (pot_two_raw r) @ [NUL]) 16 2
                   (pot_two_ack r)]
           else [])"
    using loop_pots_two [OF assms(1), of r] pots_frame_two [OF assms(5)]
    by (simp add: m2 POTS_TEXT_def)
  have d: "channel_two_pot_value (loop r s)
        = (if 4 < \<bar>sint (pot_two_raw r) - sint (channel_two_pot_value s)\<bar>
           then pot_two_raw r else channel_two_pot_value s)"
    by (simp add: loop_pot_two m2)
  have e: "(\<forall>q\<in>set rs. adc (pot_one_raw q)
            \<and> \<bar>sint (pot_one_raw q) - sint (channel_one_pot_value s)\<bar> \<le> 4) \<longrightarrow>
         frames_for ''POTS '' 1 (trace (loops rs s)) = frames_for ''POTS '' 1 (trace s)
         \<and> channel_one_pot_value (loops rs s) = channel_one_pot_value s"
    using loops_quiet_one [OF assms(1) assms(2), of rs] by (simp add: POTS_TEXT_def)
  have f: "(\<forall>q\<in>set rs. adc (pot_two_raw q)
            \<and> \<bar>sint (pot_two_raw q) - sint (channel_two_pot_value s)\<bar> \<le> 4) \<longrightarrow>
         frames_for ''POTS '' 2 (trace (loops rs s)) = frames_for ''POTS '' 2 (trace s)
         \<and> channel_two_pot_value (loops rs s) = channel_two_pot_value s"
    using loops_quiet_two [OF assms(1) assms(3), of rs] by (simp add: POTS_TEXT_def)
  show ?thesis
    using a b c d e f by blast
qed

lemma ready_adc: "adc (channel_one_pot_value ready)" "adc (channel_two_pot_value ready)"
  by (simp_all add: ready_fields adc_def)

lemma ready_no_frames: "frames_for code ch (trace ready) = []"
  using frames_for_sends [of code ch "trace ready"] by (simp add: ready_fields)

theorem pot_poll_hysteresis_witness:
  "frames_for ''POTS '' 1 (trace (loop (idle\<lparr>pot_one_raw := 506\<rparr>) ready))
     = [SendtoWait (''POTS '' @ ''    1'' @ ''  506'' @ [NUL]) 16 2 True]
   \<and> channel_one_pot_value (loop (idle\<lparr>pot_one_raw := 506\<rparr>) ready) = 506
   \<and> frames_for ''POTS '' 2 (trace (loop (idle\<lparr>pot_one_raw := 506\<rparr>) ready)) = []
   \<and> channel_two_pot_value (loop (idle\<lparr>pot_one_raw := 506\<rparr>) ready) = 300
   \<and> frames_for ''POTS '' 1
       (trace (loops [idle\<lparr>pot_one_raw := 504\<rparr>, idle\<lparr>pot_one_raw := 496\<rparr>] ready)) = []
   \<and> channel_one_pot_value
       (loops [idle\<lparr>pot_one_raw := 504\<rparr>, idle\<lparr>pot_one_raw := 496\<rparr>] ready) = 500"
proof -
  have f: "fmt_d 5 506 = ''  506''" by code_simp
  have a: "adc (pot_one_raw (idle\<lparr>pot_one_raw := 506\<rparr>))"
    "adc (pot_two_raw (idle\<lparr>pot_one_raw := 506\<rparr>))"
    by (simp_all add: adc_def idle_def)
  show ?thesis
    using pot_poll_hysteresis [OF length_ready ready_adc a,
        of "[idle\<lparr>pot_one_raw := 504\<rparr>, idle\<lparr>pot_one_raw := 496\<rparr>]"]
    by (simp add: f ready_fields ready_no_frames idle_def adc_def)
qed

text \<open>
  C9. \<open>loop\<close> assigns the reading to the last reported value before it calls
  \<open>sendPots\<close>, and neither \<open>sendPots\<close> nor anything after it touches that value:
  after an iteration in which the pot of a channel moved, the last reported value is the
  reading whatever \<open>sendtoWait\<close> returned, also when it failed. An iteration that then
  reads a value within 4 of it hands over no \<open>POTS\<close> frame for the channel and leaves
  the value: the frame that failed is not sent again.
\<close>

theorem baseline_kept_whatever_the_outcome:
  assumes "length (command_buf s) = COMMAND_BUF_LEN"
  shows "channel_one_pot_value (sendPots ch v ack s) = channel_one_pot_value s
    \<and> channel_two_pot_value (sendPots ch v ack s) = channel_two_pot_value s
    \<and> (adc (channel_one_pot_value s) \<and> adc (pot_one_raw r) \<and> adc (pot_one_raw r')
        \<and> 4 < \<bar>sint (pot_one_raw r) - sint (channel_one_pot_value s)\<bar>
        \<and> \<bar>sint (pot_one_raw r') - sint (pot_one_raw r)\<bar> \<le> 4 \<longrightarrow>
          channel_one_pot_value (loop r s) = pot_one_raw r
        \<and> channel_one_pot_value (loop (failing r) s) = pot_one_raw r
        \<and> frames_for ''POTS '' 1 (trace (loop (failing r) s)) = frames_for ''POTS '' 1 (trace s)
            @ [SendtoWait (''POTS '' @ ''    1'' @ fmt_d 5 (pot_one_raw r) @ [NUL]) 16 2 False]
        \<and> frames_for ''POTS '' 1 (trace (loop r' (loop (failing r) s)))
            = frames_for ''POTS '' 1 (trace (loop (failing r) s))
        \<and> channel_one_pot_value (loop r' (loop (failing r) s)) = pot_one_raw r)
    \<and> (adc (channel_two_pot_value s) \<and> adc (pot_two_raw r) \<and> adc (pot_two_raw r')
        \<and> 4 < \<bar>sint (pot_two_raw r) - sint (channel_two_pot_value s)\<bar>
        \<and> \<bar>sint (pot_two_raw r') - sint (pot_two_raw r)\<bar> \<le> 4 \<longrightarrow>
          channel_two_pot_value (loop r s) = pot_two_raw r
        \<and> channel_two_pot_value (loop (failing r) s) = pot_two_raw r
        \<and> frames_for ''POTS '' 2 (trace (loop (failing r) s)) = frames_for ''POTS '' 2 (trace s)
            @ [SendtoWait (''POTS '' @ ''    2'' @ fmt_d 5 (pot_two_raw r) @ [NUL]) 16 2 False]
        \<and> frames_for ''POTS '' 2 (trace (loop r' (loop (failing r) s)))
            = frames_for ''POTS '' 2 (trace (loop (failing r) s))
        \<and> channel_two_pot_value (loop r' (loop (failing r) s)) = pot_two_raw r)"
proof -
  have l: "length (command_buf (loop (failing r) s)) = COMMAND_BUF_LEN"
    by (rule loop_length [OF assms])
  have one: "channel_one_pot_value (loop r s) = pot_one_raw r
        \<and> channel_one_pot_value (loop (failing r) s) = pot_one_raw r
        \<and> frames_for ''POTS '' 1 (trace (loop (failing r) s)) = frames_for ''POTS '' 1 (trace s)
            @ [SendtoWait (''POTS '' @ ''    1'' @ fmt_d 5 (pot_one_raw r) @ [NUL]) 16 2 False]
        \<and> frames_for ''POTS '' 1 (trace (loop r' (loop (failing r) s)))
            = frames_for ''POTS '' 1 (trace (loop (failing r) s))
        \<and> channel_one_pot_value (loop r' (loop (failing r) s)) = pot_one_raw r"
    if h: "adc (channel_one_pot_value s)" "adc (pot_one_raw r)" "adc (pot_one_raw r')"
      "4 < \<bar>sint (pot_one_raw r) - sint (channel_one_pot_value s)\<bar>"
      "\<bar>sint (pot_one_raw r') - sint (pot_one_raw r)\<bar> \<le> 4"
  proof -
    have moved: "POTS_EPS <s abs16 (pot_one_raw r - channel_one_pot_value s)"
      using h by (simp add: moved_iff)
    have base: "channel_one_pot_value (loop r s) = pot_one_raw r"
      "channel_one_pot_value (loop (failing r) s) = pot_one_raw r"
      using moved by (simp_all add: loop_pot_one failing_def)
    have still: "\<not> POTS_EPS <s abs16 (pot_one_raw r' - pot_one_raw r)"
      using h by (simp add: moved_iff)
    have sent: "frames_for ''POTS '' 1 (trace (loop (failing r) s))
        = frames_for ''POTS '' 1 (trace s)
          @ [SendtoWait (''POTS '' @ ''    1'' @ fmt_d 5 (pot_one_raw r) @ [NUL]) 16 2 False]"
      using loop_pots_one [OF assms, of "failing r"] moved pots_frame_one [OF h(2)]
      by (simp add: failing_def POTS_TEXT_def)
    have again: "frames_for ''POTS '' 1 (trace (loop r' (loop (failing r) s)))
        = frames_for ''POTS '' 1 (trace (loop (failing r) s))"
      using loop_pots_one [OF l, of r'] still by (simp add: base POTS_TEXT_def)
    have kept: "channel_one_pot_value (loop r' (loop (failing r) s)) = pot_one_raw r"
      using still by (simp add: loop_pot_one [of r'] base)
    show ?thesis using base sent again kept by blast
  qed
  have two: "channel_two_pot_value (loop r s) = pot_two_raw r
        \<and> channel_two_pot_value (loop (failing r) s) = pot_two_raw r
        \<and> frames_for ''POTS '' 2 (trace (loop (failing r) s)) = frames_for ''POTS '' 2 (trace s)
            @ [SendtoWait (''POTS '' @ ''    2'' @ fmt_d 5 (pot_two_raw r) @ [NUL]) 16 2 False]
        \<and> frames_for ''POTS '' 2 (trace (loop r' (loop (failing r) s)))
            = frames_for ''POTS '' 2 (trace (loop (failing r) s))
        \<and> channel_two_pot_value (loop r' (loop (failing r) s)) = pot_two_raw r"
    if h: "adc (channel_two_pot_value s)" "adc (pot_two_raw r)" "adc (pot_two_raw r')"
      "4 < \<bar>sint (pot_two_raw r) - sint (channel_two_pot_value s)\<bar>"
      "\<bar>sint (pot_two_raw r') - sint (pot_two_raw r)\<bar> \<le> 4"
  proof -
    have moved: "POTS_EPS <s abs16 (pot_two_raw r - channel_two_pot_value s)"
      using h by (simp add: moved_iff)
    have base: "channel_two_pot_value (loop r s) = pot_two_raw r"
      "channel_two_pot_value (loop (failing r) s) = pot_two_raw r"
      using moved by (simp_all add: loop_pot_two failing_def)
    have still: "\<not> POTS_EPS <s abs16 (pot_two_raw r' - pot_two_raw r)"
      using h by (simp add: moved_iff)
    have sent: "frames_for ''POTS '' 2 (trace (loop (failing r) s))
        = frames_for ''POTS '' 2 (trace s)
          @ [SendtoWait (''POTS '' @ ''    2'' @ fmt_d 5 (pot_two_raw r) @ [NUL]) 16 2 False]"
      using loop_pots_two [OF assms, of "failing r"] moved pots_frame_two [OF h(2)]
      by (simp add: failing_def POTS_TEXT_def)
    have again: "frames_for ''POTS '' 2 (trace (loop r' (loop (failing r) s)))
        = frames_for ''POTS '' 2 (trace (loop (failing r) s))"
      using loop_pots_two [OF l, of r'] still by (simp add: base POTS_TEXT_def)
    have kept: "channel_two_pot_value (loop r' (loop (failing r) s)) = pot_two_raw r"
      using still by (simp add: loop_pot_two [of r'] base)
    show ?thesis using base sent again kept by blast
  qed
  show ?thesis
    using one two by (simp add: sendPots_other)
qed

theorem baseline_kept_whatever_the_outcome_witness:
  "channel_one_pot_value (loop (failing (idle\<lparr>pot_one_raw := 506\<rparr>)) ready) = 506
   \<and> frames_for ''POTS '' 1 (trace (loop (failing (idle\<lparr>pot_one_raw := 506\<rparr>)) ready))
       = [SendtoWait (''POTS '' @ ''    1'' @ ''  506'' @ [NUL]) 16 2 False]
   \<and> frames_for ''POTS '' 1
       (trace (loop (idle\<lparr>pot_one_raw := 506\<rparr>) (loop (failing (idle\<lparr>pot_one_raw := 506\<rparr>)) ready)))
       = [SendtoWait (''POTS '' @ ''    1'' @ ''  506'' @ [NUL]) 16 2 False]
   \<and> channel_one_pot_value
       (loop (idle\<lparr>pot_one_raw := 506\<rparr>) (loop (failing (idle\<lparr>pot_one_raw := 506\<rparr>)) ready))
       = 506"
proof -
  have f: "fmt_d 5 506 = ''  506''" by code_simp
  show ?thesis
    using baseline_kept_whatever_the_outcome [OF length_ready,
        of 1 506 False "idle\<lparr>pot_one_raw := 506\<rparr>" "idle\<lparr>pot_one_raw := 506\<rparr>"]
    by (simp add: f ready_fields ready_no_frames idle_def adc_def)
qed

section \<open>The order of the deliveries\<close>

lemma primed_fields:
  "length (command_buf primed) = COMMAND_BUF_LEN"
  "command_buf primed = replicate 16 NUL"
  "channel_one_pot_value primed = 500"
  "channel_two_pot_value primed = 300"
  "channel_one_button_debouncer primed
     = Bounce_new\<lparr>pin := 4, unstable := LOW, previous_millis := 20\<rparr>"
  "channel_two_button_debouncer primed = Bounce_new\<lparr>pin := 5\<rparr>"
  "sends (trace primed) = []"
proof -
  have still: "\<not> POTS_EPS <s abs16 (500 - 500)" "\<not> POTS_EPS <s abs16 (300 - 300)"
    by (simp_all add: POTS_EPS_def abs16_def word_sless_alt)
  show "length (command_buf primed) = COMMAND_BUF_LEN"
    unfolding primed_def by (rule loop_length [OF length_ready])
  show "channel_one_button_debouncer primed
     = Bounce_new\<lparr>pin := 4, unstable := LOW, previous_millis := 20\<rparr>"
    "channel_two_button_debouncer primed = Bounce_new\<lparr>pin := 5\<rparr>"
    unfolding primed_def
    by (simp_all add: loop_debouncer_one loop_debouncer_two ready_fields idle_def
          update_def Bounce_new_def)
  show "channel_one_pot_value primed = 500" "channel_two_pot_value primed = 300"
    unfolding primed_def using still
    by (simp_all add: loop_pot_one loop_pot_two ready_fields idle_def)
  show "command_buf primed = replicate 16 NUL"
    unfolding primed_def using still
    by (simp add: loop_buf [OF length_ready] loop_debouncer_one loop_debouncer_two ready_fields
          idle_def update_def Bounce_new_def fell_def)
  show "sends (trace primed) = []"
    unfolding primed_def using still
    by (simp add: loop_sends [OF length_ready] loop_debouncer_one loop_debouncer_two ready_fields
          idle_def update_def Bounce_new_def fell_def)
qed

lemma mode_frame_fresh:
  "mode_frame 1 (replicate 16 NUL) = ''MODE '' @ ''    1'' @ [NUL, NUL, NUL, NUL, NUL, NUL]"
proof -
  have "replicate 5 NUL = [NUL, NUL, NUL, NUL, NUL]"
    by (simp add: numeral_eq_Suc)
  then show ?thesis
    by (simp add: mode_frame_def MODE_TEXT_def fmt_d_1)
qed

text \<open>
  C7. The trace of one iteration of \<open>loop\<close> is: the two button reads; the delivery for
  button 1 if its debouncer fell; the delivery for button 2 if its debouncer fell; the read
  of pot 1 and the delivery for pot 1 if it moved; the read of pot 2 and the delivery for
  pot 2 if it moved. Each delivery is one block of the trace that holds one call of the
  transport and what follows from its result, so that the calls of the transport come in
  this order, one after the other.
\<close>

theorem deliveries_in_fixed_order:
  assumes "length (command_buf s) = COMMAND_BUF_LEN"
  shows "trace (loop r s) = trace s
       @ [DigitalRead (pin (channel_one_button_debouncer s)) (button_one_level r),
          DigitalRead (pin (channel_two_button_debouncer s)) (button_two_level r)]
       @ (if fell (update (button_one_level r) (button_one_millis r)
                     (channel_one_button_debouncer s))
          then delivery (mode_frame 1 (command_buf s)) True (button_one_ack r) else [])
       @ (if fell (update (button_two_level r) (button_two_millis r)
                     (channel_two_button_debouncer s))
          then delivery (mode_frame 2 (command_buf s)) True (button_two_ack r) else [])
       @ [AnalogRead CHANNEL_ONE_POT_PIN (pot_one_raw r)]
       @ (if POTS_EPS <s abs16 (pot_one_raw r - channel_one_pot_value s)
          then delivery (pots_frame 1 (pot_one_raw r)) False (pot_one_ack r) else [])
       @ [AnalogRead CHANNEL_TWO_POT_PIN (pot_two_raw r)]
       @ (if POTS_EPS <s abs16 (pot_two_raw r - channel_two_pot_value s)
          then delivery (pots_frame 2 (pot_two_raw r)) False (pot_two_ack r) else [])
    \<and> sends (delivery c f a) = [SendtoWait (take 16 c) 16 2 a]
    \<and> sends (trace (loop r s)) = sends (trace s)
       @ (if fell (update (button_one_level r) (button_one_millis r)
                     (channel_one_button_debouncer s))
          then [SendtoWait (mode_frame 1 (command_buf s)) 16 2 (button_one_ack r)] else [])
       @ (if fell (update (button_two_level r) (button_two_millis r)
                     (channel_two_button_debouncer s))
          then [SendtoWait (mode_frame 2 (command_buf s)) 16 2 (button_two_ack r)] else [])
       @ (if POTS_EPS <s abs16 (pot_one_raw r - channel_one_pot_value s)
          then [SendtoWait (pots_frame 1 (pot_one_raw r)) 16 2 (pot_one_ack r)] else [])
       @ (if POTS_EPS <s abs16 (pot_two_raw r - channel_two_pot_value s)
          then [SendtoWait (pots_frame 2 (pot_two_raw r)) 16 2 (pot_two_ack r)] else [])"
proof (intro conjI)
  show "sends (delivery c f a) = [SendtoWait (take 16 c) 16 2 a]"
    by (simp add: sends_delivery COMMAND_BUF_LEN_def RECEIVER_ADDRESS_def)
qed (use loop_trace [OF assms, of r] loop_sends [OF assms, of r] in
      \<open>simp_all only: loop_debouncer_one loop_debouncer_two\<close>)

theorem deliveries_in_fixed_order_witness:
  "sends (trace (loop (idle\<lparr>button_one_level := LOW, button_one_millis := 30,
                          pot_two_raw := 310, pot_two_ack := False\<rparr>) primed))
     = [SendtoWait (''MODE '' @ ''    1'' @ [NUL, NUL, NUL, NUL, NUL, NUL]) 16 2 True,
        SendtoWait (''POTS '' @ ''    2'' @ ''  310'' @ [NUL]) 16 2 False]"
proof -
  have f: "fmt_d 5 310 = ''  310''" by code_simp
  have p: "pots_frame 2 310 = ''POTS '' @ ''    2'' @ ''  310'' @ [NUL]"
    by (simp add: pots_frame_def POTS_TEXT_def fmt_d_2 f)
  have m: "\<not> POTS_EPS <s abs16 (500 - 500)" "POTS_EPS <s abs16 (310 - 300)"
    by (simp_all add: POTS_EPS_def abs16_def word_sless_alt)
  note order = deliveries_in_fixed_order [OF primed_fields(1),
        of "idle\<lparr>button_one_level := LOW, button_one_millis := 30,
                 pot_two_raw := 310, pot_two_ack := False\<rparr>" "[]" False False,
        THEN conjunct2, THEN conjunct2]
  show ?thesis
    using order m
    by (simp add: primed_fields mode_frame_fresh p idle_def update_def fell_def Bounce_new_def)
qed

section \<open>Failed deliveries\<close>

lemma failing_fields:
  "button_one_level (failing r) = button_one_level r"
  "button_one_millis (failing r) = button_one_millis r"
  "button_two_level (failing r) = button_two_level r"
  "button_two_millis (failing r) = button_two_millis r"
  "pot_one_raw (failing r) = pot_one_raw r"
  "pot_two_raw (failing r) = pot_two_raw r"
  "button_one_ack (failing r) = False"
  "button_two_ack (failing r) = False"
  "pot_one_ack (failing r) = False"
  "pot_two_ack (failing r) = False"
  by (simp_all add: failing_def)

lemma sampling_loop:
  "sampling (loop r s) =
     (if POTS_EPS <s abs16 (pot_one_raw r - channel_one_pot_value s)
      then pot_one_raw r else channel_one_pot_value s,
      if POTS_EPS <s abs16 (pot_two_raw r - channel_two_pot_value s)
      then pot_two_raw r else channel_two_pot_value s,
      update (button_one_level r) (button_one_millis r) (channel_one_button_debouncer s),
      update (button_two_level r) (button_two_millis r) (channel_two_button_debouncer s))"
  by (simp add: sampling_def loop_pot_one loop_pot_two loop_debouncer_one loop_debouncer_two)

lemma loop_failing_step:
  assumes "length (command_buf s) = COMMAND_BUF_LEN"
    and "sampling s' = sampling s" and "command_buf s' = command_buf s"
    and "attempts (trace s') = attempts (trace s)" and "samples (trace s') = samples (trace s)"
  shows "sampling (loop (failing r) s') = sampling (loop r s)
     \<and> command_buf (loop (failing r) s') = command_buf (loop r s)
     \<and> attempts (trace (loop (failing r) s')) = attempts (trace (loop r s))
     \<and> samples (trace (loop (failing r) s')) = samples (trace (loop r s))"
proof -
  have l: "length (command_buf s') = COMMAND_BUF_LEN"
    using assms by simp
  have eq: "channel_one_pot_value s' = channel_one_pot_value s"
    "channel_two_pot_value s' = channel_two_pot_value s"
    "channel_one_button_debouncer s' = channel_one_button_debouncer s"
    "channel_two_button_debouncer s' = channel_two_button_debouncer s"
    using assms(2) by (simp_all add: sampling_def)
  have "sampling (loop (failing r) s') = sampling (loop r s)"
    by (simp add: sampling_loop failing_fields eq)
  moreover have "command_buf (loop (failing r) s') = command_buf (loop r s)"
    by (simp add: loop_buf [OF l] loop_buf [OF assms(1)] loop_debouncer_one loop_debouncer_two
          failing_fields eq assms(3))
  moreover have "attempts (trace (loop (failing r) s')) = attempts (trace (loop r s))"
    by (simp add: loop_attempts [OF l] loop_attempts [OF assms(1)] loop_debouncer_one
          loop_debouncer_two failing_fields eq assms(3) assms(4))
  moreover have "samples (trace (loop (failing r) s')) = samples (trace (loop r s))"
    by (simp add: loop_samples [OF l] loop_samples [OF assms(1)] failing_fields eq assms(5))
  ultimately show ?thesis by blast
qed

lemma loops_failing:
  assumes "length (command_buf s) = COMMAND_BUF_LEN"
    and "sampling s' = sampling s" and "command_buf s' = command_buf s"
    and "attempts (trace s') = attempts (trace s)" and "samples (trace s') = samples (trace s)"
  shows "sampling (loops (map failing rs) s') = sampling (loops rs s)
     \<and> command_buf (loops (map failing rs) s') = command_buf (loops rs s)
     \<and> attempts (trace (loops (map failing rs) s')) = attempts (trace (loops rs s))
     \<and> samples (trace (loops (map failing rs) s')) = samples (trace (loops rs s))"
  using assms
proof (induction rs arbitrary: s s')
  case Nil
  then show ?case by (simp add: loops_Nil)
next
  case (Cons r rs)
  note step = loop_failing_step [OF Cons.prems, of r]
  have "sampling (loops (map failing rs) (loop (failing r) s')) = sampling (loops rs (loop r s))
     \<and> command_buf (loops (map failing rs) (loop (failing r) s')) = command_buf (loops rs (loop r s))
     \<and> attempts (trace (loops (map failing rs) (loop (failing r) s')))
         = attempts (trace (loops rs (loop r s)))
     \<and> samples (trace (loops (map failing rs) (loop (failing r) s')))
         = samples (trace (loops rs (loop r s)))"
    using step Cons.prems(1) by (intro Cons.IH) (simp_all add: loop_length)
  then show ?case by (simp add: loops_Cons)
qed

lemma loops_samples_length:
  "length (command_buf s) = COMMAND_BUF_LEN \<Longrightarrow>
     length (samples (trace (loops rs s))) = length (samples (trace s)) + 4 * length rs"
  by (induction rs arbitrary: s) (simp_all add: loops_Nil loops_Cons loop_length loop_samples)

lemma in_set_if_single: "x \<in> set (if P then [y] else []) \<Longrightarrow> x = y"
  by (cases P) simp_all

lemma loop_failing_no_ack:
  assumes "length (command_buf s) = COMMAND_BUF_LEN"
    and "SendtoWait f n a True \<in> set (sends (trace (loop (failing r) s)))"
  shows "SendtoWait f n a True \<in> set (sends (trace s))"
proof -
  have no: "SendtoWait f n a True \<notin> set (if P then [SendtoWait c 16 2 False] else [])" for P c
    by (cases P) simp_all
  have "set (sends (trace (loop (failing r) s))) = set (sends (trace s))
      \<union> set (if fell (channel_one_button_debouncer (loop (failing r) s))
             then [SendtoWait (mode_frame 1 (command_buf s)) 16 2 False] else [])
      \<union> set (if fell (channel_two_button_debouncer (loop (failing r) s))
             then [SendtoWait (mode_frame 2 (command_buf s)) 16 2 False] else [])
      \<union> set (if POTS_EPS <s abs16 (pot_one_raw r - channel_one_pot_value s)
             then [SendtoWait (pots_frame 1 (pot_one_raw r)) 16 2 False] else [])
      \<union> set (if POTS_EPS <s abs16 (pot_two_raw r - channel_two_pot_value s)
             then [SendtoWait (pots_frame 2 (pot_two_raw r)) 16 2 False] else [])"
    by (simp only: loop_sends [OF assms(1)] set_append failing_fields Un_assoc)
  with assms(2) no show ?thesis
    by (simp only: Un_iff) blast
qed

lemma loops_failing_no_ack:
  "length (command_buf s) = COMMAND_BUF_LEN \<Longrightarrow>
     SendtoWait f n a True \<in> set (sends (trace (loops (map failing rs) s))) \<Longrightarrow>
     SendtoWait f n a True \<in> set (sends (trace s))"
proof (induction rs arbitrary: s)
  case Nil
  then show ?case by (simp add: loops_Nil)
next
  case (Cons r rs)
  have l: "length (command_buf (loop (failing r) s)) = COMMAND_BUF_LEN"
    by (rule loop_length [OF Cons.prems(1)])
  have m: "SendtoWait f n a True
      \<in> set (sends (trace (loops (map failing rs) (loop (failing r) s))))"
    using Cons.prems(2) by (simp add: loops_Cons)
  have "SendtoWait f n a True \<in> set (sends (trace (loop (failing r) s)))"
    by (rule Cons.IH [OF l m])
  then show ?case
    by (rule loop_failing_no_ack [OF Cons.prems(1)])
qed

lemma loop_attempts_due:
  "length (command_buf s) = COMMAND_BUF_LEN \<Longrightarrow>
     attempts (trace (loop r s)) = attempts (trace s) @ due r s"
  by (simp add: loop_attempts due_def loop_debouncer_one loop_debouncer_two)

lemma loop_sends_failing:
  "length (command_buf s) = COMMAND_BUF_LEN \<Longrightarrow>
     sends (trace (loop (failing r) s)) = sends (trace s) @ map failed (due r s)"
  by (simp add: loop_sends due_def failed_def loop_debouncer_one loop_debouncer_two
        failing_fields)

lemma due_failing:
  assumes "sampling s' = sampling s" and "command_buf s' = command_buf s"
  shows "due (failing r) s' = due r s"
proof -
  have eq: "channel_one_pot_value s' = channel_one_pot_value s"
    "channel_two_pot_value s' = channel_two_pot_value s"
    "channel_one_button_debouncer s' = channel_one_button_debouncer s"
    "channel_two_button_debouncer s' = channel_two_button_debouncer s"
    using assms(1) by (simp_all add: sampling_def)
  show ?thesis
    by (simp add: due_def failing_fields eq assms(2))
qed

lemma due_run_failing:
  assumes "length (command_buf s) = COMMAND_BUF_LEN"
    and "sampling s' = sampling s" and "command_buf s' = command_buf s"
    and "attempts (trace s') = attempts (trace s)" and "samples (trace s') = samples (trace s)"
  shows "due_run (map failing rs) s' = due_run rs s"
  using assms
proof (induction rs arbitrary: s s')
  case Nil
  then show ?case by simp
next
  case (Cons r rs)
  note step = loop_failing_step [OF Cons.prems, of r]
  have l: "length (command_buf (loop r s)) = COMMAND_BUF_LEN"
    by (rule loop_length [OF Cons.prems(1)])
  have "due_run (map failing rs) (loop (failing r) s') = due_run rs (loop r s)"
    using step by (intro Cons.IH [OF l]) simp_all
  then show ?case
    by (simp add: due_failing [OF Cons.prems(2) Cons.prems(3)])
qed

lemma loops_attempts_due:
  "length (command_buf s) = COMMAND_BUF_LEN \<Longrightarrow>
     attempts (trace (loops rs s)) = attempts (trace s) @ due_run rs s"
  by (induction rs arbitrary: s)
     (simp_all add: loops_Nil loops_Cons loop_length loop_attempts_due)

lemma loops_sends_failing:
  "length (command_buf s) = COMMAND_BUF_LEN \<Longrightarrow>
     sends (trace (loops (map failing rs) s))
       = sends (trace s) @ map failed (due_run (map failing rs) s)"
  by (induction rs arbitrary: s)
     (simp_all add: loops_Nil loops_Cons loop_length loop_sends_failing due_failing)

lemma ready_samples: "samples (trace ready) = [AnalogRead 14 500, AnalogRead 15 300]"
  by (simp add: ready_def setup_sketch_def boot_ok_def Let_def emit_def emits_def power_on_def
        CHANNEL_ONE_POT_PIN_def CHANNEL_TWO_POT_PIN_def)

text \<open>
  C5. \<open>sendCommand\<close> calls the transport once, whatever the call returns, and changes
  neither the sampling state nor the command buffer; after a call that failed it prints a
  line, shows the orange pulse for a button, and returns. Every iteration of \<open>loop\<close>
  hands to the transport exactly the frames that its events call for, one call for each
  debouncer that fell and each pot that moved, and so does every run of iterations; with a
  radio that always fails each of these calls is made all the same and is not
  acknowledged, also in an iteration that follows any number of failed ones. The outcomes
  do not reach the sampling: iterations with a radio that always fails leave the same
  baselines and debouncers and the same buffer as the same iterations with any other
  outcomes, and sample the same inputs, four in every iteration.
\<close>

theorem failed_deliveries_do_not_stop_the_loop:
  assumes "length (command_buf s) = COMMAND_BUF_LEN"
  shows "sends (trace (sendCommand c f ack s)) = sends (trace s) @ [SendtoWait (take 16 c) 16 2 ack]
    \<and> sampling (sendCommand c f ack s) = sampling s
    \<and> command_buf (sendCommand c f ack s) = command_buf s
    \<and> trace (sendCommand c f False s) = trace s
        @ [Serial_print ''Sending command: '', Serial_println (c_str c),
           SendtoWait (take 16 c) 16 2 False]
        @ (if f then [DigitalWrite GREEN_LED_PIN LOW, DigitalWrite ORANGE_LED_PIN HIGH, Delay 200]
           else [])
        @ [Serial_println ''sendtoWait failed'']
        @ (if f then [DigitalWrite GREEN_LED_PIN LOW, DigitalWrite ORANGE_LED_PIN LOW] else [])
    \<and> sampling (loops (map failing rs) s) = sampling (loops rs s)
    \<and> command_buf (loops (map failing rs) s) = command_buf (loops rs s)
    \<and> attempts (trace (loops (map failing rs) s)) = attempts (trace (loops rs s))
    \<and> samples (trace (loops (map failing rs) s)) = samples (trace (loops rs s))
    \<and> length (samples (trace (loops (map failing rs) s)))
        = length (samples (trace s)) + 4 * length rs
    \<and> (\<forall>fr n a. SendtoWait fr n a True \<in> set (sends (trace (loops (map failing rs) s)))
          \<longrightarrow> SendtoWait fr n a True \<in> set (sends (trace s)))
    \<and> attempts (trace (loop r s)) = attempts (trace s) @ due r s
    \<and> sends (trace (loop (failing r) s)) = sends (trace s) @ map failed (due r s)
    \<and> attempts (trace (loops rs s)) = attempts (trace s) @ due_run rs s
    \<and> attempts (trace (loops (map failing rs) s)) = attempts (trace s) @ due_run rs s
    \<and> sends (trace (loops (map failing rs) s)) = sends (trace s) @ map failed (due_run rs s)
    \<and> sends (trace (loop (failing r) (loops (map failing rs) s)))
        = sends (trace (loops (map failing rs) s)) @ map failed (due r (loops rs s))"
proof -
  have "sends (trace (sendCommand c f ack s)) = sends (trace s) @ [SendtoWait (take 16 c) 16 2 ack]"
    by (simp add: sendCommand_def emits_def sends_append sends_delivery COMMAND_BUF_LEN_def
          RECEIVER_ADDRESS_def)
  moreover have "sampling (sendCommand c f ack s) = sampling s"
    "command_buf (sendCommand c f ack s) = command_buf s"
    by (simp_all add: sendCommand_def emits_def sampling_def)
  moreover have "trace (sendCommand c f False s) = trace s
        @ [Serial_print ''Sending command: '', Serial_println (c_str c),
           SendtoWait (take 16 c) 16 2 False]
        @ (if f then [DigitalWrite GREEN_LED_PIN LOW, DigitalWrite ORANGE_LED_PIN HIGH, Delay 200]
           else [])
        @ [Serial_println ''sendtoWait failed'']
        @ (if f then [DigitalWrite GREEN_LED_PIN LOW, DigitalWrite ORANGE_LED_PIN LOW] else [])"
    by (simp add: sendCommand_def emits_def delivery_def COMMAND_BUF_LEN_def RECEIVER_ADDRESS_def)
  moreover have same: "sampling (loops (map failing rs) s) = sampling (loops rs s)
     \<and> command_buf (loops (map failing rs) s) = command_buf (loops rs s)
     \<and> attempts (trace (loops (map failing rs) s)) = attempts (trace (loops rs s))
     \<and> samples (trace (loops (map failing rs) s)) = samples (trace (loops rs s))"
    by (rule loops_failing [OF assms]) simp_all
  moreover have "length (samples (trace (loops (map failing rs) s)))
        = length (samples (trace s)) + 4 * length rs"
    using loops_samples_length [OF assms, of "map failing rs"] by simp
  moreover have "\<forall>fr n a. SendtoWait fr n a True \<in> set (sends (trace (loops (map failing rs) s)))
          \<longrightarrow> SendtoWait fr n a True \<in> set (sends (trace s))"
    using loops_failing_no_ack [OF assms] by blast
  moreover have "attempts (trace (loop r s)) = attempts (trace s) @ due r s"
    by (rule loop_attempts_due [OF assms])
  moreover have "sends (trace (loop (failing r) s)) = sends (trace s) @ map failed (due r s)"
    by (rule loop_sends_failing [OF assms])
  moreover have run: "attempts (trace (loops rs s)) = attempts (trace s) @ due_run rs s"
    by (rule loops_attempts_due [OF assms])
  moreover have "attempts (trace (loops (map failing rs) s)) = attempts (trace s) @ due_run rs s"
    using same run by simp
  moreover have "sends (trace (loops (map failing rs) s))
      = sends (trace s) @ map failed (due_run rs s)"
  proof -
    have "due_run (map failing rs) s = due_run rs s"
      by (rule due_run_failing [OF assms]) simp_all
    then show ?thesis
      using loops_sends_failing [OF assms, of rs] by simp
  qed
  moreover have "sends (trace (loop (failing r) (loops (map failing rs) s)))
        = sends (trace (loops (map failing rs) s)) @ map failed (due r (loops rs s))"
  proof -
    have l: "length (command_buf (loops (map failing rs) s)) = COMMAND_BUF_LEN"
      by (rule loops_length [OF assms])
    have "due (failing r) (loops (map failing rs) s) = due r (loops rs s)"
      using same by (intro due_failing) simp_all
    moreover have "due (failing r) (loops (map failing rs) s) = due r (loops (map failing rs) s)"
      by (simp add: due_def failing_fields)
    ultimately show ?thesis
      using loop_sends_failing [OF l, of r] by simp
  qed
  ultimately show ?thesis by blast
qed

theorem failed_deliveries_do_not_stop_the_loop_witness:
  "sampling (loops (map failing [idle\<lparr>pot_one_raw := 506\<rparr>, idle\<lparr>pot_two_raw := 310\<rparr>]) ready)
     = sampling (loops [idle\<lparr>pot_one_raw := 506\<rparr>, idle\<lparr>pot_two_raw := 310\<rparr>] ready)
   \<and> attempts (trace (loops (map failing [idle\<lparr>pot_one_raw := 506\<rparr>, idle\<lparr>pot_two_raw := 310\<rparr>]) ready))
     = attempts (trace (loops [idle\<lparr>pot_one_raw := 506\<rparr>, idle\<lparr>pot_two_raw := 310\<rparr>] ready))
   \<and> length (samples (trace (loops (map failing [idle\<lparr>pot_one_raw := 506\<rparr>, idle\<lparr>pot_two_raw := 310\<rparr>]) ready)))
     = 10
   \<and> (\<forall>fr n a. SendtoWait fr n a True
         \<notin> set (sends (trace (loops (map failing [idle\<lparr>pot_one_raw := 506\<rparr>, idle\<lparr>pot_two_raw := 310\<rparr>]) ready))))
   \<and> sends (trace (loops (map failing
        [idle\<lparr>button_one_level := LOW, button_one_millis := 20, pot_one_raw := 506\<rparr>,
         idle\<lparr>button_one_level := LOW, button_one_millis := 30, pot_one_raw := 506,
              pot_two_raw := 310\<rparr>]) ready))
     = [SendtoWait (''POTS '' @ ''    1'' @ ''  506'' @ [NUL]) 16 2 False,
        SendtoWait (''MODE '' @ ''    1'' @ [NUL, CHR '' '', CHR ''5'', CHR ''0'', CHR ''6'', NUL])
          16 2 False,
        SendtoWait (''POTS '' @ ''    2'' @ ''  310'' @ [NUL]) 16 2 False]"
proof -
  define rs where "rs = [idle\<lparr>pot_one_raw := 506\<rparr>, idle\<lparr>pot_two_raw := 310\<rparr>]"
  define r1 where
    "r1 = idle\<lparr>button_one_level := LOW, button_one_millis := 20, pot_one_raw := 506\<rparr>"
  define r2 where
    "r2 = idle\<lparr>button_one_level := LOW, button_one_millis := 30, pot_one_raw := 506,
               pot_two_raw := 310\<rparr>"
  note all = failed_deliveries_do_not_stop_the_loop [OF length_ready, of "[]" False False rs idle]
  note run = failed_deliveries_do_not_stop_the_loop [OF length_ready,
      of "[]" False False "[r1, r2]" idle]
  have a: "sampling (loops (map failing rs) ready) = sampling (loops rs ready)"
    using all by blast
  have b: "attempts (trace (loops (map failing rs) ready)) = attempts (trace (loops rs ready))"
    using all by blast
  have "length (samples (trace (loops (map failing rs) ready)))
      = length (samples (trace ready)) + 4 * length rs"
    using all by blast
  then have c: "length (samples (trace (loops (map failing rs) ready))) = 10"
    by (simp add: ready_samples rs_def)
  have "\<forall>fr n a. SendtoWait fr n a True \<in> set (sends (trace (loops (map failing rs) ready)))
          \<longrightarrow> SendtoWait fr n a True \<in> set (sends (trace ready))"
    using all by blast
  then have d: "\<forall>fr n a. SendtoWait fr n a True
      \<notin> set (sends (trace (loops (map failing rs) ready)))"
    by (simp add: ready_fields)
  have m: "POTS_EPS <s abs16 (506 - 500)" "\<not> POTS_EPS <s abs16 (300 - 300)"
    "\<not> POTS_EPS <s abs16 (506 - 506)" "POTS_EPS <s abs16 (310 - 300)"
    by (simp_all add: POTS_EPS_def abs16_def word_sless_alt)
  have f: "fmt_d 5 506 = ''  506''" "fmt_d 5 310 = ''  310''"
    by code_simp+
  have p1: "pots_frame 1 506 = ''POTS '' @ ''    1'' @ ''  506'' @ [NUL]"
    by (simp add: pots_frame_def POTS_TEXT_def fmt_d_1 f)
  have p2: "pots_frame 2 310 = ''POTS '' @ ''    2'' @ ''  310'' @ [NUL]"
    by (simp add: pots_frame_def POTS_TEXT_def fmt_d_2 f)
  have s1: "channel_one_button_debouncer (loop r1 ready)
      = Bounce_new\<lparr>pin := 4, unstable := LOW, previous_millis := 20\<rparr>"
    "channel_two_button_debouncer (loop r1 ready) = Bounce_new\<lparr>pin := 5\<rparr>"
    "channel_one_pot_value (loop r1 ready) = 506"
    "channel_two_pot_value (loop r1 ready) = 300"
    using m
    by (simp_all add: loop_debouncer_one loop_debouncer_two loop_pot_one loop_pot_two
          ready_fields r1_def idle_def update_def Bounce_new_def)
  have b1: "command_buf (loop r1 ready) = ''POTS '' @ ''    1'' @ ''  506'' @ [NUL]"
    using m
    by (simp add: loop_buf [OF length_ready] ready_fields r1_def idle_def p1)
  have d1: "due r1 ready = [(''POTS '' @ ''    1'' @ ''  506'' @ [NUL], 16, 2)]"
    using m
    by (simp add: due_def ready_fields r1_def idle_def update_def fell_def Bounce_new_def p1)
  have d2: "due r2 (loop r1 ready)
      = [(''MODE '' @ ''    1'' @ [NUL, CHR '' '', CHR ''5'', CHR ''0'', CHR ''6'', NUL], 16, 2),
         (''POTS '' @ ''    2'' @ ''  310'' @ [NUL], 16, 2)]"
    using m
    by (simp add: due_def s1 b1 r2_def idle_def update_def fell_def Bounce_new_def p2
          mode_frame_def MODE_TEXT_def fmt_d_1)
  have "sends (trace (loops (map failing [r1, r2]) ready))
      = sends (trace ready) @ map failed (due_run [r1, r2] ready)"
    using run by blast
  then have e: "sends (trace (loops (map failing [r1, r2]) ready))
     = [SendtoWait (''POTS '' @ ''    1'' @ ''  506'' @ [NUL]) 16 2 False,
        SendtoWait (''MODE '' @ ''    1'' @ [NUL, CHR '' '', CHR ''5'', CHR ''0'', CHR ''6'', NUL])
          16 2 False,
        SendtoWait (''POTS '' @ ''    2'' @ ''  310'' @ [NUL]) 16 2 False]"
    by (simp add: ready_fields d1 d2 failed_def)
  show ?thesis
    using a b c d e unfolding rs_def r1_def r2_def by blast
qed

section \<open>The buttons\<close>

lemma fell_update_iff:
  "fell (update raw now b) \<longleftrightarrow>
     raw = LOW \<and> unstable b = LOW \<and> debounced b = HIGH
     \<and> interval_millis b \<le> now - previous_millis b"
  by (cases raw; cases "unstable b"; cases "debounced b") (simp_all add: fell_def update_def)

lemma update_keeps:
  "interval_millis (update raw now b) = interval_millis b"
  "pin (update raw now b) = pin b"
  by (simp_all add: update_def)

lemma update_LOW_pressed:
  "debounced b = LOW \<Longrightarrow> unstable b = LOW \<Longrightarrow>
     debounced (update LOW now b) = LOW \<and> unstable (update LOW now b) = LOW"
  by (simp add: update_def)

lemma presses_pressed:
  "debounced b = LOW \<Longrightarrow> unstable b = LOW \<Longrightarrow> \<forall>x\<in>set xs. fst x = LOW \<Longrightarrow> presses b xs = 0"
proof (induction xs arbitrary: b)
  case Nil
  then show ?case by simp
next
  case (Cons x xs)
  obtain now where x: "x = (LOW, now)"
    using Cons.prems(3) by (cases x) simp
  have "presses (update LOW now b) xs = 0"
    using Cons.prems update_LOW_pressed [of b now] by (intro Cons.IH) simp_all
  then show ?case
    using Cons.prems by (simp add: x fell_update_iff)
qed

lemma presses_pending:
  "debounced b = HIGH \<Longrightarrow> unstable b = LOW \<Longrightarrow> \<forall>x\<in>set xs. fst x = LOW \<Longrightarrow>
     presses b xs
       = (if \<exists>x\<in>set xs. interval_millis b \<le> snd x - previous_millis b then 1 else 0)"
proof (induction xs arbitrary: b)
  case Nil
  then show ?case by simp
next
  case (Cons x xs)
  obtain now where x: "x = (LOW, now)"
    using Cons.prems(3) by (cases x) simp
  show ?case
  proof (cases "interval_millis b \<le> now - previous_millis b")
    case True
    have "debounced (update LOW now b) = LOW" "unstable (update LOW now b) = LOW"
      using True Cons.prems by (simp_all add: update_def)
    then have "presses (update LOW now b) xs = 0"
      using Cons.prems(3) by (intro presses_pressed) simp_all
    then show ?thesis
      using True Cons.prems by (simp add: x fell_update_iff)
  next
    case False
    have same: "debounced (update LOW now b) = HIGH" "unstable (update LOW now b) = LOW"
      "interval_millis (update LOW now b) = interval_millis b"
      "previous_millis (update LOW now b) = previous_millis b"
      using False Cons.prems by (simp_all add: update_def)
    have "presses (update LOW now b) xs
       = (if \<exists>x\<in>set xs. interval_millis (update LOW now b)
                \<le> snd x - previous_millis (update LOW now b) then 1 else 0)"
      using same Cons.prems(3) by (intro Cons.IH) simp_all
    then show ?thesis
      using False by (simp add: x fell_update_iff same)
  qed
qed

lemma presses_press:
  assumes "debounced b = HIGH" and "unstable b = HIGH" and "\<forall>x\<in>set xs. fst x = LOW"
  shows "presses b ((LOW, t0) # xs)
     = (if \<exists>x\<in>set xs. interval_millis b \<le> snd x - t0 then 1 else 0)"
proof -
  have first: "debounced (update LOW t0 b) = HIGH" "unstable (update LOW t0 b) = LOW"
    "interval_millis (update LOW t0 b) = interval_millis b"
    "previous_millis (update LOW t0 b) = t0"
    using assms by (simp_all add: update_def)
  have "presses (update LOW t0 b) xs
     = (if \<exists>x\<in>set xs. interval_millis (update LOW t0 b)
              \<le> snd x - previous_millis (update LOW t0 b) then 1 else 0)"
    using first assms(3) by (intro presses_pending) simp_all
  then show ?thesis
    using assms by (simp add: fell_update_iff first)
qed

lemma presses_bouncing:
  "bouncing (interval_millis b) (unstable b) (previous_millis b) xs \<Longrightarrow> presses b xs = 0"
proof (induction xs arbitrary: b)
  case Nil
  then show ?case by simp
next
  case (Cons x xs)
  obtain raw now where x: "x = (raw, now)" by (cases x)
  show ?case
  proof (cases "raw = unstable b")
    case True
    then have short: "now - previous_millis b < interval_millis b"
      and rest: "bouncing (interval_millis b) (unstable b) (previous_millis b) xs"
      using Cons.prems by (simp_all add: x)
    have same: "interval_millis (update raw now b) = interval_millis b"
      "unstable (update raw now b) = unstable b"
      "previous_millis (update raw now b) = previous_millis b"
      using True short by (simp_all add: update_def)
    have "presses (update raw now b) xs = 0"
      using rest by (intro Cons.IH) (simp add: same)
    then show ?thesis
      using short by (simp add: x fell_update_iff)
  next
    case False
    then have rest: "bouncing (interval_millis b) raw now xs"
      using Cons.prems by (simp add: x)
    have next_state: "interval_millis (update raw now b) = interval_millis b"
      "unstable (update raw now b) = raw"
      "previous_millis (update raw now b) = now"
      using False by (simp_all add: update_def)
    have "presses (update raw now b) xs = 0"
      using rest by (intro Cons.IH) (simp add: next_state)
    then show ?thesis
      using False by (auto simp add: x fell_update_iff)
  qed
qed

lemma loops_interval:
  "interval_millis (channel_one_button_debouncer (loops rs s))
     = interval_millis (channel_one_button_debouncer s)
   \<and> interval_millis (channel_two_button_debouncer (loops rs s))
     = interval_millis (channel_two_button_debouncer s)"
  by (induction rs arbitrary: s)
     (simp_all add: loops_Nil loops_Cons loop_debouncer_one loop_debouncer_two update_keeps)

lemma setup_sketch_debouncers:
  assumes "setup_sketch n bt power_on = Inr s0"
  shows "channel_one_button_debouncer s0 = Bounce_new\<lparr>pin := 4\<rparr>
     \<and> channel_two_button_debouncer s0 = Bounce_new\<lparr>pin := 5\<rparr>"
proof -
  have ok: "manager_init bt" "driver_setRF bt"
    using assms by (auto simp add: setup_sketch_def Let_def split: if_splits)
  show ?thesis
    using setup_sketch_ok [OF ok, of n] assms by auto
qed

text \<open>
  C4. The sketch sends a \<open>MODE\<close> frame for a channel in an iteration of \<open>loop\<close>
  exactly when the debouncer of that channel fell in this iteration. With the debouncer as
  the spec describes it, this is the poll that accepts a press: the stable level was
  released, the raw level reads pressed as it did at the poll before, and at least the
  interval has passed since the raw level changed; the interval is 10 in every state the
  sketch reaches after \<open>setup\<close>. After such a poll the stable level is pressed, and while
  it is pressed no poll makes the debouncer fall, neither while the button is held nor when
  its release is accepted. A press seen first at \<open>t0\<close> and held counts once if some
  later poll comes at least the interval after \<open>t0\<close>, and not at all otherwise; a raw
  signal that toggles faster than the interval counts never.
\<close>

theorem button_debounce:
  assumes "length (command_buf s) = COMMAND_BUF_LEN"
  shows "frames_for ''MODE '' 1 (trace (loop r s)) = frames_for ''MODE '' 1 (trace s)
        @ (if button_one_level r = LOW
              \<and> unstable (channel_one_button_debouncer s) = LOW
              \<and> debounced (channel_one_button_debouncer s) = HIGH
              \<and> interval_millis (channel_one_button_debouncer s)
                  \<le> button_one_millis r - previous_millis (channel_one_button_debouncer s)
           then [SendtoWait (mode_frame 1 (command_buf s)) 16 2 (button_one_ack r)] else [])
    \<and> frames_for ''MODE '' 2 (trace (loop r s)) = frames_for ''MODE '' 2 (trace s)
        @ (if button_two_level r = LOW
              \<and> unstable (channel_two_button_debouncer s) = LOW
              \<and> debounced (channel_two_button_debouncer s) = HIGH
              \<and> interval_millis (channel_two_button_debouncer s)
                  \<le> button_two_millis r - previous_millis (channel_two_button_debouncer s)
           then [SendtoWait (mode_frame 2 (command_buf s)) 16 2 (button_two_ack r)] else [])
    \<and> (setup_sketch n bt power_on = Inr s0 \<longrightarrow>
          interval_millis (channel_one_button_debouncer (loops rs s0)) = 10
        \<and> interval_millis (channel_two_button_debouncer (loops rs s0)) = 10
        \<and> debounced (channel_one_button_debouncer s0) = HIGH
        \<and> debounced (channel_two_button_debouncer s0) = HIGH)
    \<and> (fell (update raw now b) \<longrightarrow>
          debounced b = HIGH \<and> debounced (update raw now b) = LOW \<and> raw = LOW
        \<and> unstable b = LOW \<and> interval_millis b \<le> now - previous_millis b)
    \<and> (debounced b = LOW \<longrightarrow> \<not> fell (update raw now b))
    \<and> (debounced b = HIGH \<and> unstable b = HIGH \<and> (\<forall>x\<in>set xs. fst x = LOW) \<longrightarrow>
          presses b ((LOW, t0) # xs)
            = (if \<exists>x\<in>set xs. interval_millis b \<le> snd x - t0 then 1 else 0))
    \<and> (bouncing (interval_millis b) (unstable b) (previous_millis b) ys \<longrightarrow>
          presses b ys = 0)"
proof -
  have one: "frames_for ''MODE '' 1 (trace (loop r s)) = frames_for ''MODE '' 1 (trace s)
        @ (if button_one_level r = LOW
              \<and> unstable (channel_one_button_debouncer s) = LOW
              \<and> debounced (channel_one_button_debouncer s) = HIGH
              \<and> interval_millis (channel_one_button_debouncer s)
                  \<le> button_one_millis r - previous_millis (channel_one_button_debouncer s)
           then [SendtoWait (mode_frame 1 (command_buf s)) 16 2 (button_one_ack r)] else [])"
    using loop_modes_one [OF assms, of r]
    by (simp only: loop_debouncer_one fell_update_iff MODE_TEXT_def)
  have two: "frames_for ''MODE '' 2 (trace (loop r s)) = frames_for ''MODE '' 2 (trace s)
        @ (if button_two_level r = LOW
              \<and> unstable (channel_two_button_debouncer s) = LOW
              \<and> debounced (channel_two_button_debouncer s) = HIGH
              \<and> interval_millis (channel_two_button_debouncer s)
                  \<le> button_two_millis r - previous_millis (channel_two_button_debouncer s)
           then [SendtoWait (mode_frame 2 (command_buf s)) 16 2 (button_two_ack r)] else [])"
    using loop_modes_two [OF assms, of r]
    by (simp only: loop_debouncer_two fell_update_iff MODE_TEXT_def)
  have start: "setup_sketch n bt power_on = Inr s0 \<longrightarrow>
          interval_millis (channel_one_button_debouncer (loops rs s0)) = 10
        \<and> interval_millis (channel_two_button_debouncer (loops rs s0)) = 10
        \<and> debounced (channel_one_button_debouncer s0) = HIGH
        \<and> debounced (channel_two_button_debouncer s0) = HIGH"
    using setup_sketch_debouncers [of n bt s0] loops_interval [of rs s0]
    by (auto simp add: Bounce_new_def)
  have edge: "fell (update raw now b) \<longrightarrow>
          debounced b = HIGH \<and> debounced (update raw now b) = LOW \<and> raw = LOW
        \<and> unstable b = LOW \<and> interval_millis b \<le> now - previous_millis b"
    by (auto simp add: fell_update_iff) (simp add: update_def)
  have held: "debounced b = LOW \<longrightarrow> \<not> fell (update raw now b)"
    by (simp add: fell_update_iff)
  have once: "debounced b = HIGH \<and> unstable b = HIGH \<and> (\<forall>x\<in>set xs. fst x = LOW) \<longrightarrow>
          presses b ((LOW, t0) # xs)
            = (if \<exists>x\<in>set xs. interval_millis b \<le> snd x - t0 then 1 else 0)"
    using presses_press [of b xs t0] by blast
  have never: "bouncing (interval_millis b) (unstable b) (previous_millis b) ys \<longrightarrow>
          presses b ys = 0"
    using presses_bouncing [of b ys] by blast
  show ?thesis
    using one two start edge held once never by blast
qed

theorem button_debounce_witness:
  "frames_for ''MODE '' 1
       (trace (loop (idle\<lparr>button_one_level := LOW, button_one_millis := 30\<rparr>) primed))
     = [SendtoWait (''MODE '' @ ''    1'' @ [NUL, NUL, NUL, NUL, NUL, NUL]) 16 2 True]
   \<and> presses (Bounce_new\<lparr>pin := 4\<rparr>) [(LOW, 20), (LOW, 24), (LOW, 30), (LOW, 35), (LOW, 40)] = 1
   \<and> presses (Bounce_new\<lparr>pin := 4\<rparr>) [(LOW, 20), (HIGH, 26), (LOW, 33), (LOW, 38), (HIGH, 41)] = 0"
proof -
  note all = button_debounce [OF primed_fields(1),
      of "idle\<lparr>button_one_level := LOW, button_one_millis := 30\<rparr>" 0 boot_ok ready "[]"
         LOW 0 "Bounce_new\<lparr>pin := 4\<rparr>" "[(LOW, 24), (LOW, 30), (LOW, 35), (LOW, 40)]" 20
         "[(LOW, 20), (HIGH, 26), (LOW, 33), (LOW, 38), (HIGH, 41)]"]
  have z: "frames_for ''MODE '' 1 (trace primed) = []"
    using frames_for_sends [of "''MODE ''" 1 "trace primed"] by (simp add: primed_fields)
  have "frames_for ''MODE '' 1
       (trace (loop (idle\<lparr>button_one_level := LOW, button_one_millis := 30\<rparr>) primed))
     = frames_for ''MODE '' 1 (trace primed)
        @ (if button_one_level (idle\<lparr>button_one_level := LOW, button_one_millis := 30\<rparr>) = LOW
              \<and> unstable (channel_one_button_debouncer primed) = LOW
              \<and> debounced (channel_one_button_debouncer primed) = HIGH
              \<and> interval_millis (channel_one_button_debouncer primed)
                  \<le> button_one_millis (idle\<lparr>button_one_level := LOW, button_one_millis := 30\<rparr>)
                      - previous_millis (channel_one_button_debouncer primed)
           then [SendtoWait (mode_frame 1 (command_buf primed)) 16 2
                   (button_one_ack (idle\<lparr>button_one_level := LOW, button_one_millis := 30\<rparr>))]
           else [])"
    using all by blast
  then have a: "frames_for ''MODE '' 1
       (trace (loop (idle\<lparr>button_one_level := LOW, button_one_millis := 30\<rparr>) primed))
     = [SendtoWait (''MODE '' @ ''    1'' @ [NUL, NUL, NUL, NUL, NUL, NUL]) 16 2 True]"
    by (simp add: z primed_fields mode_frame_fresh idle_def Bounce_new_def)
  have "debounced (Bounce_new\<lparr>pin := 4\<rparr>) = HIGH \<and> unstable (Bounce_new\<lparr>pin := 4\<rparr>) = HIGH
      \<and> (\<forall>x\<in>set [(LOW, 24), (LOW, 30), (LOW, 35), (LOW, 40::nat)]. fst x = LOW)"
    by (simp add: Bounce_new_def)
  with all have "presses (Bounce_new\<lparr>pin := 4\<rparr>) ((LOW, 20) # [(LOW, 24), (LOW, 30), (LOW, 35), (LOW, 40)])
      = (if \<exists>x\<in>set [(LOW, 24), (LOW, 30), (LOW, 35), (LOW, 40::nat)].
              interval_millis (Bounce_new\<lparr>pin := 4\<rparr>) \<le> snd x - 20 then 1 else 0)"
    by blast
  then have b: "presses (Bounce_new\<lparr>pin := 4\<rparr>) [(LOW, 20), (LOW, 24), (LOW, 30), (LOW, 35), (LOW, 40)] = 1"
    by (simp add: Bounce_new_def)
  have "bouncing (interval_millis (Bounce_new\<lparr>pin := 4\<rparr>)) (unstable (Bounce_new\<lparr>pin := 4\<rparr>))
      (previous_millis (Bounce_new\<lparr>pin := 4\<rparr>))
      [(LOW, 20), (HIGH, 26), (LOW, 33), (LOW, 38), (HIGH, 41)]"
    by (simp add: Bounce_new_def)
  with all have c: "presses (Bounce_new\<lparr>pin := 4\<rparr>)
      [(LOW, 20), (HIGH, 26), (LOW, 33), (LOW, 38), (HIGH, 41)] = 0"
    by blast
  show ?thesis
    using a b c by blast
qed

end
